theory Spec2Isabelle
  imports Main "HOL-Library.Word" "HOL-Library.Signed_Division" "HOL-Library.Monad_Syntax"
begin

unbundle bit_operations_syntax

section \<open>The kernel monitor of kern/monitor.c\<close>

text \<open>
  The monitor runs on a 32-bit x86 machine: \<open>int\<close>, \<open>uint32_t\<close>, \<open>uintptr_t\<close> and every
  pointer are 32-bit values, modelled as \<open>32 word\<close> (arithmetic wraps; \<open>sint\<close> reads a
  value as a C \<open>int\<close>, \<open>unat\<close> as unsigned). A pointer \<open>uint32_t *p\<close> is the byte address
  it holds, so \<open>p + k\<close> is \<open>p + 4 * k\<close> on addresses.

  Console output is the only effect of the monitor besides the in-place tokenisation of
  the line buffer: the console is the string of all characters written so far, and every
  function that prints takes the console and returns the extended one. A result of type
  \<open>option\<close> is \<open>None\<close> when the call does not return normally (a walk that never ends, or a
  formatted print whose arguments do not fit its format).
\<close>

type_synonym uint32_t = "32 word"
type_synonym console = string

subsection \<open>Formatted output\<close>

text \<open>
  Modelled from the spec: \<open>cprintf\<close> (kern/printf.c and lib/printfmt.c are not part of the
  sources at hand). The spec calls it a printf-style formatted-output operation; the
  conversions below are the ones kern/monitor.c uses, with their C meaning:
  \<open>%s\<close> (a string, cut to the precision when one is given), \<open>%d\<close> (a signed decimal
  \<open>int\<close>), \<open>%x\<close> (an unsigned hexadecimal \<open>int\<close>, lower case), \<open>%%\<close>, the flag \<open>0\<close>, a decimal
  field width, and a precision \<open>.n\<close> or \<open>.*\<close> (taken from the next \<open>int\<close> argument).
  Anything else, and an argument of the wrong kind, has no result.
\<close>

datatype fmt_arg = ArgStr string | ArgInt uint32_t

definition digit_char :: "nat \<Rightarrow> char" where
  "digit_char d = ''0123456789abcdef'' ! (d mod 16)"

function printnum :: "nat \<Rightarrow> nat \<Rightarrow> string" where
  "printnum base num =
     (if 2 \<le> base \<and> base \<le> num then printnum base (num div base) @ [digit_char (num mod base)]
      else [digit_char num])"
  by pat_completeness auto
termination
  by (relation "measure snd") (auto intro: div_less_dividend)

declare printnum.simps [simp del]

record conv =
  zero_flag :: bool
  width :: nat
  in_prec :: bool
  precision :: "int option"

definition conv0 :: conv where
  "conv0 = \<lparr>zero_flag = False, width = 0, in_prec = False, precision = None\<rparr>"

definition is_digit :: "char \<Rightarrow> bool" where
  "is_digit c = (48 \<le> (of_char c :: nat) \<and> (of_char c :: nat) \<le> 57)"

definition digit_val :: "char \<Rightarrow> nat" where
  "digit_val c = of_char c - 48"

definition pad_left :: "nat \<Rightarrow> char \<Rightarrow> string \<Rightarrow> string" where
  "pad_left w c s = replicate (w - length s) c @ s"

definition fmt_unsigned :: "conv \<Rightarrow> nat \<Rightarrow> nat \<Rightarrow> string" where
  "fmt_unsigned cv base n =
     pad_left (width cv) (if zero_flag cv then CHR ''0'' else CHR '' '') (printnum base n)"

definition fmt_signed :: "conv \<Rightarrow> int \<Rightarrow> string" where
  "fmt_signed cv i =
     (let sign = (if i < 0 then ''-'' else '''');
          ds = printnum 10 (nat \<bar>i\<bar>)
      in if zero_flag cv then sign @ pad_left (width cv - length sign) CHR ''0'' ds
         else pad_left (width cv) CHR '' '' (sign @ ds))"

definition fmt_string :: "conv \<Rightarrow> string \<Rightarrow> string" where
  "fmt_string cv s =
     pad_left (width cv) CHR '' ''
       (case precision cv of
          None \<Rightarrow> s
        | Some n \<Rightarrow> if n < 0 then s else take (nat n) s)"

fun vprintfmt :: "conv option \<Rightarrow> string \<Rightarrow> fmt_arg list \<Rightarrow> string option" where
  "vprintfmt None [] args = Some []"
| "vprintfmt None (c # fmt) args =
     (if c = CHR ''%'' then vprintfmt (Some conv0) fmt args
      else map_option ((#) c) (vprintfmt None fmt args))"
| "vprintfmt (Some cv) [] args = None"
| "vprintfmt (Some cv) (c # fmt) args =
     (if c = CHR ''0'' \<and> \<not> in_prec cv \<and> width cv = 0 then
        vprintfmt (Some (cv\<lparr>zero_flag := True\<rparr>)) fmt args
      else if is_digit c then
        (if in_prec cv then
           vprintfmt (Some (cv\<lparr>precision :=
               Some (10 * (case precision cv of None \<Rightarrow> 0 | Some n \<Rightarrow> n) + int (digit_val c))\<rparr>))
             fmt args
         else vprintfmt (Some (cv\<lparr>width := 10 * width cv + digit_val c\<rparr>)) fmt args)
      else if c = CHR ''.'' then
        (if in_prec cv then None
         else vprintfmt (Some (cv\<lparr>in_prec := True, precision := Some 0\<rparr>)) fmt args)
      else if c = CHR ''*'' then
        (case args of
           ArgInt n # rest \<Rightarrow>
             (if in_prec cv then vprintfmt (Some (cv\<lparr>precision := Some (sint n)\<rparr>)) fmt rest
              else None)
         | _ \<Rightarrow> None)
      else if c = CHR ''d'' then
        (case args of
           ArgInt n # rest \<Rightarrow>
             (if in_prec cv then None
              else map_option ((@) (fmt_signed cv (sint n))) (vprintfmt None fmt rest))
         | _ \<Rightarrow> None)
      else if c = CHR ''x'' then
        (case args of
           ArgInt n # rest \<Rightarrow>
             (if in_prec cv then None
              else map_option ((@) (fmt_unsigned cv 16 (unat n))) (vprintfmt None fmt rest))
         | _ \<Rightarrow> None)
      else if c = CHR ''s'' then
        (case args of
           ArgStr s # rest \<Rightarrow>
             (if zero_flag cv then None
              else map_option ((@) (fmt_string cv s)) (vprintfmt None fmt rest))
         | _ \<Rightarrow> None)
      else if c = CHR ''%'' then map_option ((#) c) (vprintfmt None fmt args)
      else None)"

definition cprintf :: "string \<Rightarrow> fmt_arg list \<Rightarrow> console \<Rightarrow> console option" where
  "cprintf fmt args con = map_option ((@) con) (vprintfmt None fmt args)"

subsection \<open>The machine the monitor runs on\<close>

text \<open>
  Modelled from the spec: \<open>struct Eipdebuginfo\<close> (kern/kdebug.h is not part of the sources
  at hand). The spec's SymbolInfo is \<open>{file, line, function_name (length-bounded, possibly
  not null-terminated), function_start_address}\<close>; the fields are the ones
  \<open>mon_print_symbols\<close> reads. A \<open>const char *\<close> field is the string it points to.
\<close>

record Eipdebuginfo =
  eip_file :: string
  eip_line :: uint32_t
  eip_fn_name :: string
  eip_fn_namelen :: uint32_t
  eip_fn_addr :: uint32_t

text \<open>
  What kern/monitor.c takes from the rest of the kernel, as parameters:
  \<^item> \<open>load a\<close>, the 32-bit word stored at address \<open>a\<close> (the dereference \<open>*p\<close> of a
    \<open>uint32_t *\<close>); the monitor never writes to the memory it walks, and nothing in it
    checks an address before reading it, so every address has a word here;
  \<^item> \<open>read_ebp\<close>, the frame pointer register as \<open>mon_backtrace\<close> reads it;
  \<^item> \<open>debuginfo_eip a\<close>, the symbol resolver: its \<open>int\<close> status and the
    \<open>Eipdebuginfo\<close> it leaves in \<open>*info\<close>;
  \<^item> the linker symbols \<open>_start\<close>, \<open>entry\<close>, \<open>etext\<close>, \<open>edata\<close>, \<open>end\<close>, the constant
    \<open>KERNBASE\<close> and the macro \<open>ROUNDUP\<close> that \<open>mon_kerninfo\<close> prints with.
\<close>

record platform =
  load :: "uint32_t \<Rightarrow> uint32_t"
  read_ebp :: uint32_t
  debuginfo_eip :: "uint32_t \<Rightarrow> uint32_t \<times> Eipdebuginfo"
  sym_start :: uint32_t
  sym_entry :: uint32_t
  sym_etext :: uint32_t
  sym_edata :: uint32_t
  sym_end :: uint32_t
  KERNBASE :: uint32_t
  ROUNDUP :: "uint32_t \<Rightarrow> uint32_t \<Rightarrow> uint32_t"

subsection \<open>Printing one stack frame\<close>

function print_args :: "platform \<Rightarrow> nat \<Rightarrow> uint32_t \<Rightarrow> console \<Rightarrow> console option" where
  "print_args p i arg_list con =
     (if i < 5 then
        do {
          con' \<leftarrow> cprintf ''%08x '' [ArgInt (load p arg_list)] con;
          print_args p (i + 1) (arg_list + 4) con'
        }
      else Some con)"
  by pat_completeness auto
termination
  by (relation "measure (\<lambda>(p, i, arg_list, con). 5 - i)") auto

declare print_args.simps [simp del]

definition mon_print_frame :: "platform \<Rightarrow> uint32_t \<Rightarrow> uint32_t \<Rightarrow> console \<Rightarrow> console option" where
  "mon_print_frame p base_ptr ret_ptr con =
     (let arg_list = base_ptr + 4 * 2 in
      do {
        con1 \<leftarrow> cprintf ''ebp %08x eip %08x args '' [ArgInt base_ptr, ArgInt ret_ptr] con;
        con2 \<leftarrow> print_args p 0 arg_list con1;
        cprintf ''\<newline>'' [] con2
      })"

definition mon_print_symbols :: "platform \<Rightarrow> uint32_t \<Rightarrow> console \<Rightarrow> console option" where
  "mon_print_symbols p ret_ptr con =
     (let info = snd (debuginfo_eip p ret_ptr);
          format_str = ''%s:%d: %.*s+%d\<newline>'';
          filename = eip_file info;
          line_num = eip_line info;
          name_length = eip_fn_namelen info;
          func_name = eip_fn_name info;
          offset = ret_ptr - eip_fn_addr info
      in cprintf format_str
           [ArgStr filename, ArgInt line_num, ArgInt name_length, ArgStr func_name, ArgInt offset]
           con)"

definition mon_print_frame_descr :: "platform \<Rightarrow> uint32_t \<Rightarrow> console \<Rightarrow> console option" where
  "mon_print_frame_descr p base_ptr con =
     (let ret_ptr = load p (base_ptr + 4 * 1) in
      do {
        con1 \<leftarrow> mon_print_frame p base_ptr ret_ptr con;
        mon_print_symbols p ret_ptr con1
      })"

subsection \<open>The backtrace walk\<close>

text \<open>
  The loop of \<open>mon_backtrace\<close> follows saved frame pointers until it reads zero. Nothing
  bounds it: on a cyclic chain it never returns, which is the value \<open>None\<close>.
\<close>

partial_function (option) backtrace_loop :: "platform \<Rightarrow> uint32_t \<Rightarrow> console \<Rightarrow> console option" where
  "backtrace_loop p base_ptr con =
     (if sint base_ptr \<noteq> 0 then
        (let prev_base = load p base_ptr in
         do {
           con' \<leftarrow> mon_print_frame_descr p base_ptr con;
           backtrace_loop p prev_base con'
         })
      else Some con)"

declare backtrace_loop.simps [code]

subsection \<open>The command table and its handlers\<close>

text \<open>
  A handler is called with \<open>argc\<close>, the argument strings \<open>argv\<close> points to, and the
  trap frame pointer \<open>tf\<close>; it returns its \<open>int\<close> and the console it leaves. The function
  pointer of a table entry is a value of the type \<open>'f\<close>, called through a function
  \<open>invoke\<close>; for the table of kern/monitor.c these are \<open>handler_id\<close> and \<open>call\<close>.
\<close>

type_synonym handler = "uint32_t \<Rightarrow> string list \<Rightarrow> uint32_t \<Rightarrow> console \<Rightarrow> (uint32_t \<times> console) option"

record 'f Command =
  name :: string
  desc :: string
  func :: 'f

datatype handler_id = Mon_help | Mon_kerninfo | Mon_backtrace

definition commands :: "handler_id Command list" where
  "commands =
     [\<lparr>name = ''help'', desc = ''Display this list of commands'', func = Mon_help\<rparr>,
      \<lparr>name = ''kerninfo'', desc = ''Display information about the kernel'', func = Mon_kerninfo\<rparr>,
      \<lparr>name = ''backtrace'', desc = ''Display stack backtrace'', func = Mon_backtrace\<rparr>]"

definition NCOMMANDS :: nat where
  "NCOMMANDS = length commands"

function mon_help_loop :: "nat \<Rightarrow> console \<Rightarrow> console option" where
  "mon_help_loop i con =
     (if i < NCOMMANDS then
        do {
          con' \<leftarrow> cprintf ''%s - %s\<newline>'' [ArgStr (name (commands ! i)), ArgStr (desc (commands ! i))] con;
          mon_help_loop (i + 1) con'
        }
      else Some con)"
  by pat_completeness auto
termination
  by (relation "measure (\<lambda>(i, con). NCOMMANDS - i)") auto

declare mon_help_loop.simps [simp del]

definition mon_help :: handler where
  "mon_help argc argv tf con = do { con' \<leftarrow> mon_help_loop 0 con; Some (0, con') }"

definition mon_kerninfo :: "platform \<Rightarrow> handler" where
  "mon_kerninfo p argc argv tf con =
     do {
       con1 \<leftarrow> cprintf ''Special kernel symbols:\<newline>'' [] con;
       con2 \<leftarrow> cprintf ''  _start                  %08x (phys)\<newline>'' [ArgInt (sym_start p)] con1;
       con3 \<leftarrow> cprintf ''  entry  %08x (virt)  %08x (phys)\<newline>''
                 [ArgInt (sym_entry p), ArgInt (sym_entry p - KERNBASE p)] con2;
       con4 \<leftarrow> cprintf ''  etext  %08x (virt)  %08x (phys)\<newline>''
                 [ArgInt (sym_etext p), ArgInt (sym_etext p - KERNBASE p)] con3;
       con5 \<leftarrow> cprintf ''  edata  %08x (virt)  %08x (phys)\<newline>''
                 [ArgInt (sym_edata p), ArgInt (sym_edata p - KERNBASE p)] con4;
       con6 \<leftarrow> cprintf ''  end    %08x (virt)  %08x (phys)\<newline>''
                 [ArgInt (sym_end p), ArgInt (sym_end p - KERNBASE p)] con5;
       con7 \<leftarrow> cprintf ''Kernel executable memory footprint: %dKB\<newline>''
                 [ArgInt (word_of_int (sint (ROUNDUP p (sym_end p - sym_entry p) 1024) sdiv 1024))] con6;
       Some (0, con7)
     }"

definition mon_backtrace :: "platform \<Rightarrow> handler" where
  "mon_backtrace p argc argv tf con =
     (let base_ptr = read_ebp p in
      do { con' \<leftarrow> backtrace_loop p base_ptr con; Some (0, con') })"

fun call :: "platform \<Rightarrow> handler_id \<Rightarrow> handler" where
  "call p Mon_help = mon_help"
| "call p Mon_kerninfo = mon_kerninfo p"
| "call p Mon_backtrace = mon_backtrace p"

subsection \<open>The command interpreter\<close>

text \<open>
  Modelled from the spec: \<open>strchr\<close> and \<open>strcmp\<close> (lib/string.c is not part of the sources
  at hand). The spec has the tokenizer split on the characters of \<open>WHITESPACE\<close> and the
  lookup match the first token exactly; \<open>strchr s c\<close> says whether the C function finds
  \<open>c\<close> in \<open>s\<close> (it finds the terminator of \<open>s\<close> when \<open>c\<close> is NUL), and \<open>strcmp\<close> returns the
  difference of the first two bytes that differ, the end of a string reading as NUL.
\<close>

definition NUL :: char where
  "NUL = CHR 0x00"

definition strchr :: "string \<Rightarrow> char \<Rightarrow> bool" where
  "strchr s c = (c \<in> set s \<or> c = NUL)"

fun strcmp :: "string \<Rightarrow> string \<Rightarrow> int" where
  "strcmp [] [] = 0"
| "strcmp [] (b # q) = - int (of_char b)"
| "strcmp (a # p) [] = int (of_char a)"
| "strcmp (a # p) (b # q) =
     (if a \<noteq> NUL \<and> a = b then strcmp p q else int (of_char a) - int (of_char b))"

definition WHITESPACE :: string where
  "WHITESPACE = [CHR 0x09, CHR 0x0D, CHR 0x0A, CHR '' '']"

definition MAXARGS :: nat where
  "MAXARGS = 16"

text \<open>
  The line buffer is the list of the bytes that \<open>readline\<close> returned before the
  terminating NUL; a position in it is an index, \<open>*buf\<close> at an index is \<open>peek\<close> (the
  terminator at the end of the list), and the C string at an index is \<open>c_string\<close>, the
  bytes from there to the next NUL. The tokenizer overwrites the buffer in place
  (\<open>*buf++ = 0\<close>) and \<open>argv\<close> holds positions in it.
\<close>

definition peek :: "string \<Rightarrow> nat \<Rightarrow> char" where
  "peek buf i = (if i < length buf then buf ! i else NUL)"

definition c_string :: "string \<Rightarrow> nat \<Rightarrow> string" where
  "c_string buf i = takeWhile (\<lambda>c. c \<noteq> NUL) (drop i buf)"

lemma peek_not_NUL: "peek buf i \<noteq> NUL \<Longrightarrow> i < length buf"
  by (auto simp: peek_def split: if_splits)

function gobble :: "string \<Rightarrow> nat \<Rightarrow> string \<times> nat" where
  "gobble buf i =
     (if peek buf i \<noteq> NUL \<and> strchr WHITESPACE (peek buf i) then gobble (buf[i := NUL]) (i + 1)
      else (buf, i))"
  by pat_completeness auto
termination
  by (relation "measure (\<lambda>(buf, i). length buf - i)") (auto dest: peek_not_NUL)

declare gobble.simps [simp del]

function scan_arg :: "string \<Rightarrow> nat \<Rightarrow> nat" where
  "scan_arg buf i =
     (if peek buf i \<noteq> NUL \<and> \<not> strchr WHITESPACE (peek buf i) then scan_arg buf (i + 1)
      else i)"
  by pat_completeness auto
termination
  by (relation "measure (\<lambda>(buf, i). length buf - i)") (auto dest: peek_not_NUL)

declare scan_arg.simps [simp del]

lemma gobble_length: "length (fst (gobble buf i)) = length buf"
proof (induction buf i rule: gobble.induct)
  case (1 buf i)
  then show ?case by (subst gobble.simps) simp
qed

lemma gobble_ge: "i \<le> snd (gobble buf i)"
proof (induction buf i rule: gobble.induct)
  case (1 buf i)
  then show ?case by (subst gobble.simps) (auto simp: Suc_leD)
qed

lemma gobble_stop:
  "peek (fst (gobble buf i)) (snd (gobble buf i)) = NUL
   \<or> \<not> strchr WHITESPACE (peek (fst (gobble buf i)) (snd (gobble buf i)))"
proof (induction buf i rule: gobble.induct)
  case (1 buf i)
  show ?case
  proof (cases "peek buf i \<noteq> NUL \<and> strchr WHITESPACE (peek buf i)")
    case True
    then have "gobble buf i = gobble (buf[i := NUL]) (i + 1)" by (subst gobble.simps) simp
    with 1 True show ?thesis by simp
  next
    case False
    then have "gobble buf i = (buf, i)" by (subst gobble.simps) auto
    with False show ?thesis by auto
  qed
qed

lemma scan_arg_ge: "i \<le> scan_arg buf i"
proof (induction buf i rule: scan_arg.induct)
  case (1 buf i)
  then show ?case by (subst scan_arg.simps) (auto simp: Suc_leD)
qed

lemma scan_arg_gt:
  "peek buf i \<noteq> NUL \<Longrightarrow> \<not> strchr WHITESPACE (peek buf i) \<Longrightarrow> i < scan_arg buf i"
  using scan_arg_ge [of "i + 1" buf] by (subst scan_arg.simps) simp

lemma parse_args_decreases:
  assumes g: "gobble buf i = (buf', j)" and nz: "peek buf' j \<noteq> NUL"
  shows "length buf' - scan_arg buf' j < length buf - i"
proof -
  have len: "length buf' = length buf" using g gobble_length [of buf i] by simp
  have ge: "i \<le> j" using g gobble_ge [of i buf] by simp
  have "\<not> strchr WHITESPACE (peek buf' j)"
    using g nz gobble_stop [of buf i] by simp
  then have "j < scan_arg buf' j" using nz by (rule scan_arg_gt [rotated])
  moreover have "j < length buf'" using nz by (rule peek_not_NUL)
  ultimately show ?thesis using len ge by simp
qed

function parse_args :: "string \<Rightarrow> nat \<Rightarrow> nat list \<Rightarrow> string \<times> nat list option" where
  "parse_args buf i argv =
     (case gobble buf i of
        (buf', j) \<Rightarrow>
          if peek buf' j = NUL then (buf', Some argv)
          else if length argv = MAXARGS - 1 then (buf', None)
          else parse_args buf' (scan_arg buf' j) (argv @ [j]))"
  by pat_completeness auto
termination
  by (relation "measure (\<lambda>(buf, i, argv). length buf - i)")
     (auto intro: parse_args_decreases [OF sym])

declare parse_args.simps [simp del]

text \<open>
  The lookup of \<open>runcmd\<close>: the first table entry whose name \<open>strcmp\<close> finds equal to
  \<open>argv[0]\<close> is called; when the loop runs off the table the command is unknown.
  \<open>runcmd\<close> gets here only with \<open>argc\<close> above 0, so \<open>argv[0]\<close> is a token.
\<close>

fun lookup :: "('f \<Rightarrow> handler) \<Rightarrow> 'f Command list \<Rightarrow> uint32_t \<Rightarrow> string list \<Rightarrow> uint32_t \<Rightarrow> console
    \<Rightarrow> (uint32_t \<times> console) option" where
  "lookup invoke [] argc argv tf con =
     do {
       con' \<leftarrow> cprintf ''Unknown command '%s'\<newline>'' [ArgStr (argv ! 0)] con;
       Some (0, con')
     }"
| "lookup invoke (c # cs) argc argv tf con =
     (if strcmp (argv ! 0) (name c) = 0 then invoke (func c) argc argv tf con
      else lookup invoke cs argc argv tf con)"

definition runcmd :: "('f \<Rightarrow> handler) \<Rightarrow> 'f Command list \<Rightarrow> string \<Rightarrow> uint32_t \<Rightarrow> console
    \<Rightarrow> (uint32_t \<times> console) option" where
  "runcmd invoke cmds buf tf con =
     (case parse_args buf 0 [] of
        (buf', None) \<Rightarrow>
          do {
            con' \<leftarrow> cprintf ''Too many arguments (max %d)\<newline>'' [ArgInt (of_nat MAXARGS)] con;
            Some (0, con')
          }
      | (buf', Some argv) \<Rightarrow>
          if length argv = 0 then Some (0, con)
          else lookup invoke cmds (of_nat (length argv)) (map (c_string buf') argv) tf con)"

subsection \<open>The read-eval-print loop\<close>

text \<open>
  \<open>readline\<close> belongs to the console: the lines it returns are the input of the model,
  \<open>None\<close> for the NULL it returns at the end of input, and what it prints itself (the
  prompt, the echo) is not on the model's console. The loop of \<open>monitor\<close> has no exit
  but the \<open>break\<close>: it is \<open>Terminal\<close> once a command returned a negative value, and
  \<open>Reading\<close>, blocked in \<open>readline\<close>, when the lines given are used up.
\<close>

datatype repl = Reading console | Terminal console

fun monitor_loop :: "('f \<Rightarrow> handler) \<Rightarrow> 'f Command list \<Rightarrow> uint32_t \<Rightarrow> string option list \<Rightarrow> console
    \<Rightarrow> repl option" where
  "monitor_loop invoke cmds tf [] con = Some (Reading con)"
| "monitor_loop invoke cmds tf (None # lines) con = monitor_loop invoke cmds tf lines con"
| "monitor_loop invoke cmds tf (Some buf # lines) con =
     do {
       (r, con') \<leftarrow> runcmd invoke cmds buf tf con;
       if sint r < 0 then Some (Terminal con') else monitor_loop invoke cmds tf lines con'
     }"

definition monitor :: "('f \<Rightarrow> handler) \<Rightarrow> 'f Command list \<Rightarrow> uint32_t \<Rightarrow> string option list \<Rightarrow> console
    \<Rightarrow> repl option" where
  "monitor invoke cmds tf lines con =
     do {
       con1 \<leftarrow> cprintf ''Welcome to the JOS kernel monitor!\<newline>'' [] con;
       con2 \<leftarrow> cprintf ''Type 'help' for a list of commands.\<newline>'' [] con1;
       monitor_loop invoke cmds tf lines con2
     }"

section \<open>What the specification says, as definitions\<close>

text \<open>
  The fixed-width hexadecimal rendering of a 32-bit value: its eight hexadecimal digits,
  the most significant first. The decimal rendering of an \<open>int\<close>: a minus sign when it
  is negative, then the digits of its magnitude.
\<close>

definition hex08 :: "uint32_t \<Rightarrow> string" where
  "hex08 w = map (\<lambda>k. digit_char (unat w div 16 ^ k mod 16)) (rev [0..<8])"

definition dec_int :: "int \<Rightarrow> string" where
  "dec_int i = (if i < 0 then ''-'' else '''') @ printnum 10 (nat \<bar>i\<bar>)"

text \<open>
  Reading a rendering back: the number a string of digits denotes in a base, and the
  \<open>int\<close> a decimal rendering denotes.
\<close>

definition digit_value :: "char \<Rightarrow> nat" where
  "digit_value c = (if is_digit c then digit_val c else of_char c - 87)"

definition number_of :: "nat \<Rightarrow> string \<Rightarrow> nat" where
  "number_of base s = foldl (\<lambda>a c. base * a + digit_value c) 0 s"

definition int_of_dec :: "string \<Rightarrow> int" where
  "int_of_dec s =
     (case s of
        [] \<Rightarrow> 0
      | c # r \<Rightarrow> if c = CHR ''-'' then - int (number_of 10 r) else int (number_of 10 s))"

text \<open>
  The tokens of a line, in the spec's words: the line split on the whitespace characters
  (tab, carriage return, newline, space) into its maximal runs of other characters.
\<close>

definition is_ws :: "char \<Rightarrow> bool" where
  "is_ws c = (c \<in> set WHITESPACE)"

lemma tokens_decreases:
  assumes "dropWhile P s = c # r"
  shows "length (dropWhile Q r) < length s"
proof -
  have "length (dropWhile Q r) \<le> length r" by (rule length_dropWhile_le)
  moreover have "length (c # r) \<le> length s"
    using length_dropWhile_le [of P s] assms by simp
  ultimately show ?thesis by simp
qed

function tokens :: "string \<Rightarrow> string list" where
  "tokens s =
     (case dropWhile is_ws s of
        [] \<Rightarrow> []
      | c # r \<Rightarrow> (c # takeWhile (\<lambda>x. \<not> is_ws x) r) # tokens (dropWhile (\<lambda>x. \<not> is_ws x) r))"
  by pat_completeness auto
termination
  by (relation "measure length") (auto intro: tokens_decreases)

declare tokens.simps [simp del]

text \<open>
  A well-formed stack: the frame pointers of the chain, callee first, each nonzero and
  each saved at offset 0 of the frame before it, the last frame saving the zero sentinel.
\<close>

fun stack_chain :: "platform \<Rightarrow> uint32_t \<Rightarrow> uint32_t list \<Rightarrow> bool" where
  "stack_chain p fp [] = (fp = 0)"
| "stack_chain p fp (f # fs) = (fp = f \<and> f \<noteq> 0 \<and> stack_chain p (load p f) fs)"

text \<open>
  The two lines of a frame. The raw frame line has the frame pointer, the return address
  saved one word above it and the five words from two words above it. The symbol line is
  \<open><file>:<line>: <function_name>+<byte_offset>\<close>, the function name being the
  length-bounded prefix of the name the resolver points to, and the byte offset the
  return address minus the function's start, as a C \<open>int\<close>.
\<close>

definition function_name :: "Eipdebuginfo \<Rightarrow> string" where
  "function_name info =
     (if sint (eip_fn_namelen info) < 0 then eip_fn_name info
      else take (nat (sint (eip_fn_namelen info))) (eip_fn_name info))"

definition symbol_line :: "Eipdebuginfo \<Rightarrow> uint32_t \<Rightarrow> string" where
  "symbol_line info ret =
     eip_file info @ '':'' @ dec_int (sint (eip_line info)) @ '': '' @ function_name info
       @ ''+'' @ dec_int (sint (ret - eip_fn_addr info)) @ ''\<newline>''"

definition frame_line :: "platform \<Rightarrow> uint32_t \<Rightarrow> string" where
  "frame_line p fp =
     ''ebp '' @ hex08 fp @ '' eip '' @ hex08 (load p (fp + 4)) @ '' args ''
       @ concat (map (\<lambda>k. hex08 (load p (fp + 8 + 4 * of_nat k)) @ '' '') [0..<5]) @ ''\<newline>''"

text \<open>
  Two machines for the examples: a stack of two frames, at 0x1000 and 0x2000, under a
  resolver that knows no address (it reports failure and leaves the placeholder names
  behind), and the same stack under a resolver that finds every address 16 bytes into
  \<open>bar\<close> in foo.c, line 42.
\<close>

definition two_frames :: platform where
  "two_frames =
     \<lparr>load = (\<lambda>a. if a = 0x1000 then 0x2000 else if a = 0x1004 then 0xf0100040
                 else if a = 0x2004 then 0xf0100100 else 0),
      read_ebp = 0x1000,
      debuginfo_eip = (\<lambda>a. (- 1, \<lparr>eip_file = ''<unknown>'', eip_line = 0,
                                eip_fn_name = ''<unknown>'', eip_fn_namelen = 9, eip_fn_addr = a\<rparr>)),
      sym_start = 0x10000c, sym_entry = 0xf010000c, sym_etext = 0xf0101a75,
      sym_edata = 0xf0112300, sym_end = 0xf0112960, KERNBASE = 0xf0000000,
      ROUNDUP = (\<lambda>a n. a + n - 1 - (a + n - 1) mod n)\<rparr>"

definition resolving :: platform where
  "resolving =
     two_frames\<lparr>debuginfo_eip :=
       (\<lambda>a. (0, \<lparr>eip_file = ''foo.c'', eip_line = 42, eip_fn_name = ''bar:F(0,1)'',
                  eip_fn_namelen = 3, eip_fn_addr = a - 16\<rparr>))\<rparr>"

text \<open>
  A command table for the examples, with a handler that asks the monitor to exit and one
  that does not; its function pointers are the handlers themselves.
\<close>

definition exit_table :: "handler Command list" where
  "exit_table =
     [\<lparr>name = ''exit'', desc = ''Leave the monitor'', func = (\<lambda>argc argv tf con. Some (- 1, con @ ''bye''))\<rparr>,
      \<lparr>name = ''nop'', desc = ''Do nothing'', func = (\<lambda>argc argv tf con. Some (7, con @ ''.''))\<rparr>]"

section \<open>Formatted output: what each call prints\<close>

lemma digit_char_0: "digit_char 0 = CHR ''0''"
  by (simp add: digit_char_def)

lemma pad_left_printnum16_step:
  "pad_left (Suc (Suc k)) CHR ''0'' (printnum 16 n) =
     pad_left (Suc k) CHR ''0'' (printnum 16 (n div 16)) @ [digit_char (n mod 16)]"
proof (cases "n < 16")
  case True
  then show ?thesis
    by (simp add: printnum.simps [of 16 n] printnum.simps [of 16 0] pad_left_def
        digit_char_0 replicate_append_same)
next
  case False
  then show ?thesis
    by (simp add: printnum.simps [of 16 n] pad_left_def Suc_diff_le)
qed

lemma pad_left_printnum16:
  "n < 16 ^ Suc k \<Longrightarrow>
   pad_left (Suc k) CHR ''0'' (printnum 16 n) =
     map (\<lambda>j. digit_char (n div 16 ^ j mod 16)) (rev [0..<Suc k])"
proof (induction k arbitrary: n)
  case 0
  then show ?case by (simp add: printnum.simps [of 16 n] pad_left_def)
next
  case (Suc k)
  have "n div 16 < 16 ^ Suc k" using Suc.prems by (simp add: less_mult_imp_div_less)
  then have IH: "pad_left (Suc k) CHR ''0'' (printnum 16 (n div 16)) =
      map (\<lambda>j. digit_char (n div 16 div 16 ^ j mod 16)) (rev [0..<Suc k])"
    by (rule Suc.IH)
  have up: "[0..<Suc (Suc k)] = 0 # map Suc [0..<Suc k]"
    by (simp only: map_Suc_upt upt_conv_Cons [of 0 "Suc (Suc k)"])
  have "map (\<lambda>j. digit_char (n div 16 ^ j mod 16)) (rev [0..<Suc (Suc k)]) =
      map (\<lambda>j. digit_char (n div 16 div 16 ^ j mod 16)) (rev [0..<Suc k]) @ [digit_char (n mod 16)]"
    unfolding up by (simp add: rev_map comp_def div_mult2_eq del: upt_Suc)
  then show ?case using IH by (simp only: pad_left_printnum16_step)
qed

lemma fmt_unsigned_hex08:
  "fmt_unsigned \<lparr>zero_flag = True, width = 8, in_prec = False, precision = None\<rparr> 16 (unat w) = hex08 w"
proof -
  have "unat w < 16 ^ Suc 7" using unsigned_less [of w] by simp
  then show ?thesis
    using pad_left_printnum16 [of "unat w" 7] by (simp add: fmt_unsigned_def hex08_def)
qed

lemma length_hex08: "length (hex08 w) = 8"
  by (simp add: hex08_def)

lemma digit_value_digit_char:
  assumes "d < 16"
  shows "digit_value (digit_char d) = d"
proof -
  have "d = 0 \<or> d = 1 \<or> d = 2 \<or> d = 3 \<or> d = 4 \<or> d = 5 \<or> d = 6 \<or> d = 7 \<or> d = 8 \<or> d = 9
      \<or> d = 10 \<or> d = 11 \<or> d = 12 \<or> d = 13 \<or> d = 14 \<or> d = 15"
    using assms by arith
  then show ?thesis
    by (elim disjE) (simp_all add: digit_value_def digit_char_def is_digit_def digit_val_def)
qed

lemma digit_char_in_digits: "digit_char d \<in> set ''0123456789abcdef''"
  unfolding digit_char_def by (rule nth_mem) simp

lemma digit_char_not_minus: "digit_char d \<noteq> CHR ''-''"
  using digit_char_in_digits [of d] by auto

lemma number_of_snoc: "number_of base (s @ [c]) = base * number_of base s + digit_value c"
  by (simp add: number_of_def)

lemma number_of_printnum:
  "2 \<le> base \<Longrightarrow> base \<le> 16 \<Longrightarrow> number_of base (printnum base n) = n"
proof (induction base n rule: printnum.induct)
  case (1 base num)
  show ?case
  proof (cases "base \<le> num")
    case True
    have "num mod base < base" using "1.prems" by simp
    then have "num mod base < 16" using "1.prems" by linarith
    then show ?thesis
      using True "1.prems" "1.IH"
      by (subst printnum.simps) (simp add: number_of_snoc digit_value_digit_char)
  next
    case False
    then have "num < 16" using "1.prems" by simp
    then show ?thesis
      using False by (subst printnum.simps) (simp add: number_of_def digit_value_digit_char)
  qed
qed

lemma number_of_zeros: "number_of base (replicate k CHR ''0'' @ s) = number_of base s"
proof -
  have z: "foldl (\<lambda>a c. base * a + digit_value c) 0 (replicate k CHR ''0'') = 0"
    by (induction k) (simp_all add: digit_value_def is_digit_def digit_val_def)
  show ?thesis by (simp add: number_of_def z)
qed

lemma number_of_hex08: "number_of 16 (hex08 w) = unat w"
proof -
  have "hex08 w = pad_left 8 CHR ''0'' (printnum 16 (unat w))"
    using fmt_unsigned_hex08 [of w] by (simp add: fmt_unsigned_def)
  then show ?thesis by (simp add: pad_left_def number_of_zeros number_of_printnum)
qed

lemma printnum_hd: "\<exists>c r. printnum base n = c # r \<and> c \<noteq> CHR ''-''"
proof (induction base n rule: printnum.induct)
  case (1 base num)
  show ?case
  proof (cases "2 \<le> base \<and> base \<le> num")
    case True
    then obtain c r where "printnum base (num div base) = c # r" "c \<noteq> CHR ''-''"
      using "1.IH" by blast
    then show ?thesis using True by (subst printnum.simps) simp
  next
    case False
    then show ?thesis by (subst printnum.simps) (auto simp: digit_char_not_minus)
  qed
qed

lemma int_of_dec_dec_int: "int_of_dec (dec_int i) = i"
proof (cases "i < 0")
  case True
  then show ?thesis by (simp add: int_of_dec_def dec_int_def number_of_printnum)
next
  case False
  obtain c r where p: "printnum 10 (nat i) = c # r" and c: "c \<noteq> CHR ''-''"
    using printnum_hd by blast
  have "number_of 10 (c # r) = nat i" using number_of_printnum [of 10 "nat i"] p by simp
  then show ?thesis using False c by (simp add: int_of_dec_def dec_int_def p)
qed

lemma cprintf_frame_head:
  "cprintf ''ebp %08x eip %08x args '' [ArgInt a, ArgInt b] con =
     Some (con @ ''ebp '' @ hex08 a @ '' eip '' @ hex08 b @ '' args '')"
  by (simp add: cprintf_def conv0_def is_digit_def digit_val_def fmt_unsigned_hex08)

lemma cprintf_symbols:
  "cprintf ''%s:%d: %.*s+%d\<newline>'' [ArgStr f, ArgInt l, ArgInt n, ArgStr s, ArgInt off] con =
     Some (con @ f @ '':'' @ dec_int (sint l) @ '': ''
           @ (if sint n < 0 then s else take (nat (sint n)) s) @ ''+'' @ dec_int (sint off) @ ''\<newline>'')"
  by (simp add: cprintf_def conv0_def is_digit_def digit_val_def fmt_signed_def fmt_string_def
      pad_left_def dec_int_def)

lemma cprintf_arg: "cprintf ''%08x '' [ArgInt a] con = Some (con @ hex08 a @ '' '')"
  by (simp add: cprintf_def conv0_def is_digit_def digit_val_def fmt_unsigned_hex08)

lemma cprintf_newline: "cprintf ''\<newline>'' [] con = Some (con @ ''\<newline>'')"
  by (simp add: cprintf_def)

lemma upt_0_Suc: "[0..<Suc k] = 0 # map Suc [0..<k]"
  by (simp only: map_Suc_upt upt_conv_Cons [of 0 "Suc k"] zero_less_Suc)

lemma sint_eq_0: "(sint (w :: uint32_t) = 0) = (w = 0)"
  by (rule signed_eq_0_iff)

lemma print_args_eq:
  "i \<le> 5 \<Longrightarrow>
   print_args p i a con =
     Some (con @ concat (map (\<lambda>k. hex08 (load p (a + 4 * of_nat k)) @ '' '') [0..<5 - i]))"
proof (induction p i a con rule: print_args.induct)
  case (1 p i a con)
  show ?case
  proof (cases "i < 5")
    case True
    have "5 - i = Suc (5 - (i + 1))" using True by simp
    then have up: "[0..<5 - i] = 0 # map Suc [0..<5 - (i + 1)]"
      by (simp only: upt_0_Suc)
    have "print_args p i a con = print_args p (i + 1) (a + 4) (con @ hex08 (load p a) @ '' '')"
      using True by (subst print_args.simps) (simp add: cprintf_arg)
    also have "\<dots> = Some ((con @ hex08 (load p a) @ '' '')
        @ concat (map (\<lambda>k. hex08 (load p (a + 4 + 4 * of_nat k)) @ '' '') [0..<5 - (i + 1)]))"
      using True by (intro "1.IH") (simp_all add: cprintf_arg)
    finally show ?thesis unfolding up by (simp add: comp_def algebra_simps)
  next
    case False
    then show ?thesis using "1.prems" by (subst print_args.simps) simp
  qed
qed

lemma mon_print_frame_eq:
  "mon_print_frame p fp ret con =
     Some (con @ ''ebp '' @ hex08 fp @ '' eip '' @ hex08 ret @ '' args ''
           @ concat (map (\<lambda>k. hex08 (load p (fp + 8 + 4 * of_nat k)) @ '' '') [0..<5]) @ ''\<newline>'')"
  by (simp add: mon_print_frame_def cprintf_frame_head print_args_eq cprintf_newline)

lemma mon_print_symbols_eq:
  "mon_print_symbols p ret con = Some (con @ symbol_line (snd (debuginfo_eip p ret)) ret)"
  by (simp add: mon_print_symbols_def cprintf_symbols symbol_line_def function_name_def Let_def)

lemma mon_print_frame_descr_eq:
  "mon_print_frame_descr p fp con =
     Some (con @ frame_line p fp
           @ symbol_line (snd (debuginfo_eip p (load p (fp + 4)))) (load p (fp + 4)))"
  by (simp add: mon_print_frame_descr_def mon_print_frame_eq mon_print_symbols_eq frame_line_def
      Let_def)

lemma backtrace_loop_chain:
  "stack_chain p fp fps \<Longrightarrow>
   backtrace_loop p fp con =
     Some (con @ concat (map (\<lambda>f. frame_line p f
             @ symbol_line (snd (debuginfo_eip p (load p (f + 4)))) (load p (f + 4))) fps))"
proof (induction fps arbitrary: fp con)
  case Nil
  then show ?case by (subst backtrace_loop.simps) simp
next
  case (Cons f fs)
  then have "fp = f" "f \<noteq> 0" "stack_chain p (load p f) fs" by simp_all
  then show ?case
    using Cons.IH [of "load p f"]
    by (subst backtrace_loop.simps) (simp add: mon_print_frame_descr_eq sint_eq_0)
qed

text \<open>
  Nothing bounds the walk: on a frame that saves its own address the loop never returns.
\<close>

lemma backtrace_loop_cycle:
  assumes "load p fp = fp" and "fp \<noteq> 0"
  shows "backtrace_loop p fp con = None"
proof (rule ccontr)
  assume "backtrace_loop p fp con \<noteq> None"
  then obtain y where y: "backtrace_loop p fp con = Some y" by auto
  from y have "\<not> (p = p \<and> fp = fp)"
  proof (rule backtrace_loop.raw_induct [where P = "\<lambda>p' bp c z. \<not> (p' = p \<and> bp = fp)", rotated])
    fix f :: "platform \<Rightarrow> uint32_t \<Rightarrow> console \<Rightarrow> console option" and p' bp c z
    assume IH: "\<And>q b d y. f q b d = Some y \<Longrightarrow> \<not> (q = p \<and> b = fp)"
      and body: "(if sint bp \<noteq> 0
          then let prev_base = load p' bp in mon_print_frame_descr p' bp c \<bind> f p' prev_base
          else Some c) = Some z"
    show "\<not> (p' = p \<and> bp = fp)"
    proof
      assume e: "p' = p \<and> bp = fp"
      then have "sint bp \<noteq> 0" using assms(2) by (simp add: sint_eq_0)
      then obtain c' where "f p fp c' = Some z"
        using body e assms(1) by (auto simp: bind_eq_Some_conv Let_def)
      then show False using IH by blast
    qed
  qed
  then show False by simp
qed

lemma hex08_digits:
  "hex08 w = [digit_char (unat w div 268435456 mod 16), digit_char (unat w div 16777216 mod 16),
     digit_char (unat w div 1048576 mod 16), digit_char (unat w div 65536 mod 16),
     digit_char (unat w div 4096 mod 16), digit_char (unat w div 256 mod 16),
     digit_char (unat w div 16 mod 16), digit_char (unat w mod 16)]"
  by (simp add: hex08_def upt_rec [of _ 8] upt_rec [of _ 7] upt_rec [of _ 6] upt_rec [of _ 5] upt_rec [of _ 4] upt_rec [of _ 3] upt_rec [of _ 2] upt_rec [of _ 1] del: upt_Suc)

lemma dec_int_0: "dec_int 0 = ''0''"
  by (simp add: dec_int_def printnum.simps [of 10 0] digit_char_def)

lemma dec_int_16: "dec_int 16 = ''16''"
  by (simp add: dec_int_def printnum.simps [of 10 16] printnum.simps [of 10 "Suc 0"] digit_char_def)

lemma dec_int_42: "dec_int 42 = ''42''"
  by (simp add: dec_int_def printnum.simps [of 10 42] printnum.simps [of 10 4] digit_char_def)

lemma frame_line_args:
  "frame_line p fp =
     ''ebp '' @ hex08 fp @ '' eip '' @ hex08 (load p (fp + 4)) @ '' args ''
       @ hex08 (load p (fp + 8)) @ '' '' @ hex08 (load p (fp + 12)) @ '' ''
       @ hex08 (load p (fp + 16)) @ '' '' @ hex08 (load p (fp + 20)) @ '' ''
       @ hex08 (load p (fp + 24)) @ '' \<newline>''"
  by (simp add: frame_line_def upt_rec [of _ 5] upt_rec [of _ 4] upt_rec [of _ 3]
      upt_rec [of _ 2] upt_rec [of _ 1] add.commute del: upt_Suc)

lemma hex08_00001000: "hex08 0x1000 = ''00001000''"
  by (simp add: hex08_digits digit_char_def)

lemma hex08_00002000: "hex08 0x2000 = ''00002000''"
  by (simp add: hex08_digits digit_char_def)

lemma hex08_00000000: "hex08 0 = ''00000000''"
  by (simp add: hex08_digits digit_char_def)

lemma hex08_f0100040: "hex08 0xf0100040 = ''f0100040''"
  by (simp add: hex08_digits digit_char_def)

lemma hex08_f0100100: "hex08 0xf0100100 = ''f0100100''"
  by (simp add: hex08_digits digit_char_def)

lemmas hex08_examples =
  hex08_00001000 hex08_00002000 hex08_00000000 hex08_f0100040 hex08_f0100100

lemma sint_offset:
  fixes ret start :: uint32_t
  assumes "start \<le> ret" and "unat (ret - start) < 2 ^ 31"
  shows "sint (ret - start) = int (unat ret) - int (unat start)"
proof -
  have "int (unat (ret - start)) < int (2 ^ 31)" using assms(2) by (simp only: of_nat_less_iff)
  then have small: "uint (ret - start) < 2 ^ 31"
    by (simp only: uint_nat of_nat_power of_nat_numeral)
  have "sint (ret - start) = signed_take_bit 31 (uint (ret - start))"
    by (simp add: sint_uint)
  also have "\<dots> = uint (ret - start)"
    by (rule signed_take_bit_int_eq_self [OF order_trans [OF _ uint_ge_0] small]) simp
  also have "\<dots> = uint ret - uint start"
    using assms(1) by (simp add: uint_minus_simple_alt [symmetric])
  finally show ?thesis by simp
qed

section \<open>The tokenizer refines the split on whitespace\<close>

lemma tokens_Nil: "tokens [] = []"
  by (simp add: tokens.simps [of "[]"])

lemma tokens_ws: "\<forall>c \<in> set sp. is_ws c \<Longrightarrow> tokens (sp @ s) = tokens s"
  by (simp add: tokens.simps [of "sp @ s"] tokens.simps [of s] dropWhile_append)

lemma tokens_word:
  assumes "w \<noteq> []" and "\<forall>c \<in> set w. \<not> is_ws c" and "s = [] \<or> is_ws (hd s)"
  shows "tokens (w @ s) = w # tokens s"
proof -
  obtain c r where w: "w = c # r" using assms(1) by (cases w) auto
  have nc: "\<not> is_ws c" and nr: "\<forall>x \<in> set r. \<not> is_ws x" using assms(2) w by auto
  have t: "takeWhile (\<lambda>x. \<not> is_ws x) (r @ s) = r"
    using nr assms(3) by (cases s) (auto simp: takeWhile_append)
  have dd: "dropWhile (\<lambda>x. \<not> is_ws x) (r @ s) = s"
    using nr assms(3) by (cases s) (auto simp: dropWhile_append)
  show ?thesis unfolding w by (subst tokens.simps) (simp add: nc t dd)
qed

lemma gobble_zip:
  "gobble (pre @ suf) (length pre) =
     (pre @ replicate (length (takeWhile (\<lambda>c. c \<noteq> NUL \<and> strchr WHITESPACE c) suf)) NUL
          @ dropWhile (\<lambda>c. c \<noteq> NUL \<and> strchr WHITESPACE c) suf,
      length pre + length (takeWhile (\<lambda>c. c \<noteq> NUL \<and> strchr WHITESPACE c) suf))"
proof (induction suf arbitrary: pre)
  case Nil
  show ?case by (simp add: gobble.simps [of pre] peek_def)
next
  case (Cons c cs)
  have pk: "peek (pre @ c # cs) (length pre) = c" by (simp add: peek_def)
  show ?case
  proof (cases "c \<noteq> NUL \<and> strchr WHITESPACE c")
    case True
    have "gobble (pre @ c # cs) (length pre) = gobble ((pre @ [NUL]) @ cs) (length (pre @ [NUL]))"
      using True pk by (subst gobble.simps) (simp add: list_update_append)
    also note Cons.IH [of "pre @ [NUL]"]
    finally show ?thesis using True by (simp add: replicate_append_same)
  next
    case False
    then show ?thesis using pk by (subst gobble.simps) auto
  qed
qed

lemma scan_arg_zip:
  "scan_arg (pre @ suf) (length pre) =
     length pre + length (takeWhile (\<lambda>c. c \<noteq> NUL \<and> \<not> strchr WHITESPACE c) suf)"
proof (induction suf arbitrary: pre)
  case Nil
  show ?case by (simp add: scan_arg.simps [of pre] peek_def)
next
  case (Cons c cs)
  have pk: "peek (pre @ c # cs) (length pre) = c" by (simp add: peek_def)
  show ?case
  proof (cases "c \<noteq> NUL \<and> \<not> strchr WHITESPACE c")
    case True
    have "scan_arg (pre @ c # cs) (length pre) = scan_arg ((pre @ [c]) @ cs) (length (pre @ [c]))"
      using True pk by (subst scan_arg.simps) simp
    also note Cons.IH [of "pre @ [c]"]
    finally show ?thesis using True by simp
  next
    case False
    then show ?thesis using pk by (subst scan_arg.simps) auto
  qed
qed

lemma strchr_WHITESPACE: "strchr WHITESPACE c = (is_ws c \<or> c = NUL)"
  by (simp add: strchr_def is_ws_def)

lemma gobble_zip':
  "gobble (pre @ suf) (length pre) =
     (pre @ replicate (length (takeWhile (\<lambda>c. c \<noteq> NUL \<and> is_ws c) suf)) NUL
          @ dropWhile (\<lambda>c. c \<noteq> NUL \<and> is_ws c) suf,
      length pre + length (takeWhile (\<lambda>c. c \<noteq> NUL \<and> is_ws c) suf))"
proof -
  have "(\<lambda>c. c \<noteq> NUL \<and> strchr WHITESPACE c) = (\<lambda>c. c \<noteq> NUL \<and> is_ws c)"
    by (auto simp: strchr_WHITESPACE)
  then show ?thesis using gobble_zip [of pre suf] by simp
qed

lemma scan_arg_zip':
  "scan_arg (pre @ suf) (length pre) =
     length pre + length (takeWhile (\<lambda>c. c \<noteq> NUL \<and> \<not> is_ws c) suf)"
proof -
  have "(\<lambda>c. c \<noteq> NUL \<and> \<not> strchr WHITESPACE c) = (\<lambda>c. c \<noteq> NUL \<and> \<not> is_ws c)"
    by (auto simp: strchr_WHITESPACE)
  then show ?thesis using scan_arg_zip [of pre suf] by simp
qed

lemma peek_zip: "peek (pre @ suf) (length pre) = (case suf of [] \<Rightarrow> NUL | c # r \<Rightarrow> c)"
  by (simp add: peek_def split: list.split)

lemma c_string_zip: "c_string (pre @ suf) (length pre + k) = c_string suf k"
  by (simp add: c_string_def)

lemma c_string_append: "\<forall>c \<in> set a. c \<noteq> NUL \<Longrightarrow> c_string (a @ b) 0 = a @ c_string b 0"
  by (simp add: c_string_def takeWhile_append2)

lemma c_string_NUL: "s = [] \<or> hd s = NUL \<Longrightarrow> c_string s 0 = []"
  by (cases s) (auto simp: c_string_def)

lemma c_string_hd: "s \<noteq> [] \<Longrightarrow> hd s \<noteq> NUL \<Longrightarrow> c_string s 0 \<noteq> [] \<and> hd (c_string s 0) = hd s"
  by (cases s) (auto simp: c_string_def)

lemma tokens_nonempty:
  assumes "s \<noteq> []" and "\<not> is_ws (hd s)"
  shows "tokens s \<noteq> []"
proof -
  obtain a as where s: "s = a # as" using assms(1) by (cases s) auto
  show ?thesis using assms(2) unfolding s by (subst tokens.simps) simp
qed

lemma parse_args_zip:
  "length argv \<le> 15 \<Longrightarrow>
   \<exists>suf' offs.
     parse_args (pre @ suf) (length pre) argv =
       (pre @ suf',
        if length argv + length (tokens (c_string suf 0)) \<le> 15
        then Some (argv @ map (\<lambda>k. length pre + k) offs) else None)
     \<and> length suf' = length suf
     \<and> (length argv + length (tokens (c_string suf 0)) \<le> 15 \<longrightarrow>
          map (c_string suf') offs = tokens (c_string suf 0))
     \<and> (suf \<noteq> [] \<and> (hd suf = NUL \<or> is_ws (hd suf)) \<longrightarrow> hd suf' = NUL)"
proof (induction "length suf" arbitrary: pre suf argv rule: less_induct)
  case less
  define g where "g = (\<lambda>c. c \<noteq> NUL \<and> is_ws c)"
  define sp where "sp = takeWhile g suf"
  define suf1 where "suf1 = dropWhile g suf"
  define pre1 where "pre1 = pre @ replicate (length sp) NUL"
  have suf: "suf = sp @ suf1" by (simp add: sp_def suf1_def)
  have sp_ws: "\<forall>c \<in> set sp. is_ws c" and sp_nz: "\<forall>c \<in> set sp. c \<noteq> NUL"
    by (auto simp: sp_def g_def dest: set_takeWhileD)
  have gob: "gobble (pre @ suf) (length pre) = (pre1 @ suf1, length pre1)"
    by (simp add: gobble_zip' pre1_def sp_def suf1_def g_def)
  have toks: "tokens (c_string suf 0) = tokens (c_string suf1 0)"
    by (simp add: suf c_string_append [OF sp_nz] tokens_ws [OF sp_ws])
  have stop1: "suf1 = [] \<or> hd suf1 = NUL \<or> \<not> is_ws (hd suf1)"
    using hd_dropWhile [of g suf] by (auto simp: suf1_def g_def)
  have hd_sp: "suf \<noteq> [] \<and> (hd suf = NUL \<or> is_ws (hd suf)) \<longrightarrow> hd (replicate (length sp) NUL @ suf1 @ x) = NUL" for x
  proof (cases suf)
    case Nil then show ?thesis by simp
  next
    case (Cons a as)
    then show ?thesis by (cases "g a") (auto simp: sp_def suf1_def g_def)
  qed
  show ?case
  proof (cases "suf1 = [] \<or> hd suf1 = NUL")
    case True
    then have pk: "peek (pre1 @ suf1) (length pre1) = NUL"
      by (auto simp: peek_zip split: list.split)
    have "tokens (c_string suf 0) = []" using True by (simp add: toks c_string_NUL tokens_Nil)
    moreover have "parse_args (pre @ suf) (length pre) argv = (pre1 @ suf1, Some argv)"
      by (subst parse_args.simps) (simp add: gob pk)
    ultimately show ?thesis
      using hd_sp [of "[]"] less.prems
      by (intro exI [of _ "replicate (length sp) NUL @ suf1"] exI [of _ "[]"])
         (simp add: pre1_def suf)
  next
    case False
    then have ne: "suf1 \<noteq> []" and nz: "hd suf1 \<noteq> NUL" and nw: "\<not> is_ws (hd suf1)"
      using stop1 by auto
    have pk: "peek (pre1 @ suf1) (length pre1) \<noteq> NUL"
      using ne nz by (auto simp: peek_zip split: list.split)
    define h where "h = (\<lambda>c. c \<noteq> NUL \<and> \<not> is_ws c)"
    define w where "w = takeWhile h suf1"
    define suf2 where "suf2 = dropWhile h suf1"
    define pre2 where "pre2 = pre1 @ w"
    have suf1: "suf1 = w @ suf2" by (simp add: w_def suf2_def)
    have w_ne: "w \<noteq> []" using ne nz nw by (cases suf1) (auto simp: w_def h_def)
    have w_nw: "\<forall>c \<in> set w. \<not> is_ws c" and w_nz: "\<forall>c \<in> set w. c \<noteq> NUL"
      by (auto simp: w_def h_def dest: set_takeWhileD)
    have scan: "scan_arg (pre1 @ suf1) (length pre1) = length pre2"
      by (simp add: scan_arg_zip' pre2_def w_def h_def)
    have stop2: "suf2 = [] \<or> hd suf2 = NUL \<or> is_ws (hd suf2)"
      using hd_dropWhile [of h suf1] by (auto simp: suf2_def h_def)
    have rest: "c_string suf2 0 = [] \<or> is_ws (hd (c_string suf2 0))"
    proof (cases "suf2 = [] \<or> hd suf2 = NUL")
      case True
      then show ?thesis by (simp add: c_string_NUL)
    next
      case False
      then have "hd (c_string suf2 0) = hd suf2" using c_string_hd [of suf2] by simp
      then show ?thesis using False stop2 by simp
    qed
    have toks1: "tokens (c_string suf 0) = w # tokens (c_string suf2 0)"
      unfolding toks by (simp add: suf1 c_string_append [OF w_nz] tokens_word [OF w_ne w_nw rest])
    have bufeq: "pre1 @ suf1 = pre2 @ suf2" by (simp add: pre2_def suf1)
    show ?thesis
    proof (cases "length argv = 15")
      case True
      have "parse_args (pre @ suf) (length pre) argv = (pre1 @ suf1, None)"
        using pk True by (subst parse_args.simps) (simp add: gob MAXARGS_def)
      moreover have "tokens (c_string suf 0) \<noteq> []" by (simp add: toks1)
      ultimately show ?thesis
        using hd_sp [of "[]"] True
        by (intro exI [of _ "replicate (length sp) NUL @ suf1"] exI [of _ "[]"])
           (simp add: pre1_def suf)
    next
      case False
      then have small: "length (argv @ [length pre1]) \<le> 15" using less.prems by simp
      have shorter: "length suf2 < length suf" using w_ne by (simp add: suf suf1)
      obtain suf2' offs2 where
        run: "parse_args (pre2 @ suf2) (length pre2) (argv @ [length pre1]) =
                (pre2 @ suf2',
                 if length (argv @ [length pre1]) + length (tokens (c_string suf2 0)) \<le> 15
                 then Some ((argv @ [length pre1]) @ map (\<lambda>k. length pre2 + k) offs2) else None)"
        and len2: "length suf2' = length suf2"
        and strs: "length (argv @ [length pre1]) + length (tokens (c_string suf2 0)) \<le> 15 \<longrightarrow>
                map (c_string suf2') offs2 = tokens (c_string suf2 0)"
        and hd2: "suf2 \<noteq> [] \<and> (hd suf2 = NUL \<or> is_ws (hd suf2)) \<longrightarrow> hd suf2' = NUL"
        using less.hyps [OF shorter small, of pre2] by blast
      have step: "parse_args (pre @ suf) (length pre) argv =
          parse_args (pre1 @ suf1) (length pre2) (argv @ [length pre1])"
        using pk False by (subst parse_args.simps) (simp add: gob scan MAXARGS_def)
      define suf' where "suf' = replicate (length sp) NUL @ w @ suf2'"
      define offs where "offs = length sp # map (\<lambda>k. length sp + length w + k) offs2"
      have end2: "suf2' = [] \<or> hd suf2' = NUL"
        using stop2 hd2 len2 by (cases suf2) auto
      have first: "c_string suf' (length sp) = w"
        using c_string_zip [of "replicate (length sp) NUL" "w @ suf2'" 0]
        by (simp add: suf'_def c_string_append [OF w_nz] c_string_NUL [OF end2])
      have later: "c_string suf' (length sp + length w + k) = c_string suf2' k" for k
        using c_string_zip [of "replicate (length sp) NUL @ w" suf2' k]
        by (simp add: suf'_def)
      have c1: "parse_args (pre @ suf) (length pre) argv =
          (pre @ suf',
           if length argv + length (tokens (c_string suf 0)) \<le> 15
           then Some (argv @ map (\<lambda>k. length pre + k) offs) else None)"
        unfolding step bufeq run
        by (simp add: toks1 suf'_def offs_def pre2_def pre1_def add.assoc)
      have c2: "length suf' = length suf" by (simp add: suf'_def suf suf1 len2)
      have c3: "length argv + length (tokens (c_string suf 0)) \<le> 15 \<longrightarrow>
          map (c_string suf') offs = tokens (c_string suf 0)"
        using strs by (simp add: toks1 offs_def first later comp_def)
      have c4: "suf \<noteq> [] \<and> (hd suf = NUL \<or> is_ws (hd suf)) \<longrightarrow> hd suf' = NUL"
        using hd_sp [of "suf2'"] w_ne
        by (cases sp) (auto simp: suf'_def suf suf1 hd_append)
      from c1 c2 c3 c4 show ?thesis by blast
    qed
  qed
qed

section \<open>Dispatch: what \<open>runcmd\<close> does with the tokens\<close>

lemma parse_args_tokens:
  "\<exists>buf' argv.
     parse_args buf 0 [] =
       (buf', if length (tokens (c_string buf 0)) \<le> 15 then Some argv else None)
     \<and> length buf' = length buf
     \<and> (length (tokens (c_string buf 0)) \<le> 15 \<longrightarrow>
          map (c_string buf') argv = tokens (c_string buf 0))"
proof -
  obtain suf' offs where
    a: "parse_args ([] @ buf) (length ([] :: string)) [] =
          ([] @ suf',
           if length ([] :: nat list) + length (tokens (c_string buf 0)) \<le> 15
           then Some ([] @ map (\<lambda>k. length ([] :: string) + k) offs) else None)"
    and b: "length suf' = length buf"
    and c: "length ([] :: nat list) + length (tokens (c_string buf 0)) \<le> 15 \<longrightarrow>
          map (c_string suf') offs = tokens (c_string buf 0)"
    using parse_args_zip [of "[]" "[]" buf] by auto
  have "map ((+) (0::nat)) offs = offs" by (induction offs) simp_all
  then show ?thesis
    using a b c by (intro exI [of _ suf'] exI [of _ offs]) simp
qed

text \<open>
  What the tokenizer leaves of a line without tokens: its blanks overwritten by NUL.
\<close>

lemma takeWhile_conj:
  "\<forall>c \<in> set (takeWhile Q xs). P c \<Longrightarrow> takeWhile (\<lambda>c. Q c \<and> P c) xs = takeWhile Q xs"
  by (induction xs) auto

lemma blank_line_buffer:
  assumes "\<forall>c \<in> set (c_string buf 0). is_ws c"
  shows "parse_args buf 0 [] =
     (replicate (length (c_string buf 0)) NUL @ drop (length (c_string buf 0)) buf, Some [])"
proof -
  have tw: "takeWhile (\<lambda>c. c \<noteq> NUL \<and> is_ws c) buf = c_string buf 0"
    using assms unfolding c_string_def drop_0 by (rule takeWhile_conj)
  have dw: "dropWhile (\<lambda>c. c \<noteq> NUL \<and> is_ws c) buf = drop (length (c_string buf 0)) buf"
    using tw by (metis dropWhile_eq_drop)
  have g: "gobble buf 0 =
      (replicate (length (c_string buf 0)) NUL @ drop (length (c_string buf 0)) buf,
       length (c_string buf 0))"
    using gobble_zip' [of "[]" buf] by (simp add: tw dw)
  have "drop (length (c_string buf 0)) buf = dropWhile (\<lambda>c. c \<noteq> NUL) buf"
    by (simp add: c_string_def dropWhile_eq_drop)
  then have stop: "drop (length (c_string buf 0)) buf = []
      \<or> hd (drop (length (c_string buf 0)) buf) = NUL"
    using hd_dropWhile [of "\<lambda>c. c \<noteq> NUL" buf] by auto
  have pk: "peek (replicate (length (c_string buf 0)) NUL @ drop (length (c_string buf 0)) buf)
      (length (c_string buf 0)) = NUL"
    using stop peek_zip [of "replicate (length (c_string buf 0)) NUL" "drop (length (c_string buf 0)) buf"]
    by (auto split: list.splits)
  show ?thesis by (subst parse_args.simps) (simp add: g pk)
qed

lemma cprintf_too_many:
  "cprintf ''Too many arguments (max %d)\<newline>'' [ArgInt (of_nat MAXARGS)] con =
     Some (con @ ''Too many arguments (max 16)\<newline>'')"
  by (simp add: cprintf_def conv0_def is_digit_def digit_val_def fmt_signed_def pad_left_def
      MAXARGS_def printnum.simps [of 10 16] printnum.simps [of 10 "Suc 0"] digit_char_def)

lemma cprintf_unknown:
  "cprintf ''Unknown command '%s'\<newline>'' [ArgStr t] con =
     Some (con @ ''Unknown command '' @ [CHR 0x27] @ t @ [CHR 0x27] @ ''\<newline>'')"
  by (simp add: cprintf_def conv0_def is_digit_def digit_val_def fmt_string_def pad_left_def)

lemma runcmd_eq:
  "runcmd invoke cmds buf tf con =
     (if 15 < length (tokens (c_string buf 0)) then
        Some (0, con @ ''Too many arguments (max 16)\<newline>'')
      else if tokens (c_string buf 0) = [] then Some (0, con)
      else lookup invoke cmds (of_nat (length (tokens (c_string buf 0))))
             (tokens (c_string buf 0)) tf con)"
proof -
  obtain buf' argv where
    p: "parse_args buf 0 [] =
          (buf', if length (tokens (c_string buf 0)) \<le> 15 then Some argv else None)"
    and s: "length (tokens (c_string buf 0)) \<le> 15 \<longrightarrow>
          map (c_string buf') argv = tokens (c_string buf 0)"
    using parse_args_tokens [of buf] by blast
  show ?thesis
  proof (cases "length (tokens (c_string buf 0)) \<le> 15")
    case True
    then have m: "map (c_string buf') argv = tokens (c_string buf 0)" using s by simp
    then have "length argv = length (tokens (c_string buf 0))" by (metis length_map)
    moreover have "(argv = []) = (tokens (c_string buf 0) = [])" using m by auto
    ultimately show ?thesis using True m by (simp add: runcmd_def p)
  next
    case False
    then show ?thesis by (simp add: runcmd_def p cprintf_too_many)
  qed
qed

lemma of_char_eq_0: "((of_char b :: nat) = 0) = (b = NUL)"
  using of_char_eq_iff [of b "CHR 0x00", where ?'a = nat] by (simp add: NUL_def)

lemma strcmp_eq_0: "(strcmp a b = 0) = (c_string a 0 = c_string b 0)"
proof (induction a b rule: strcmp.induct)
  case 1
  show ?case by simp
next
  case (2 b q)
  show ?case by (auto simp: c_string_def of_char_eq_0)
next
  case (3 a p)
  show ?case by (auto simp: c_string_def of_char_eq_0)
next
  case (4 a p b q)
  have "(int (of_char a) - int (of_char b) = 0) = (a = b)"
    using of_char_eq_iff [of a b, where ?'a = nat] by auto
  with 4 show ?case by (auto simp: c_string_def)
qed

lemma tokens_no_NUL:
  "NUL \<notin> set s \<Longrightarrow> t \<in> set (tokens s) \<Longrightarrow> NUL \<notin> set t"
proof (induction s arbitrary: t rule: tokens.induct)
  case (1 s)
  show ?case
  proof (cases "dropWhile is_ws s")
    case Nil
    have "tokens s = []" by (subst tokens.simps) (simp only: Nil list.case)
    then show ?thesis using "1.prems" by simp
  next
    case (Cons c r)
    have sub: "set (c # r) \<subseteq> set s" using set_dropWhileD [of _ is_ws s] Cons by auto
    then have nz: "NUL \<notin> set (c # r)" using "1.prems"(1) by auto
    have "tokens s = (c # takeWhile (\<lambda>x. \<not> is_ws x) r) # tokens (dropWhile (\<lambda>x. \<not> is_ws x) r)"
      by (subst tokens.simps) (simp only: Cons list.case)
    then have "t = c # takeWhile (\<lambda>x. \<not> is_ws x) r \<or> t \<in> set (tokens (dropWhile (\<lambda>x. \<not> is_ws x) r))"
      using "1.prems"(2) by simp
    then show ?thesis
    proof
      assume "t = c # takeWhile (\<lambda>x. \<not> is_ws x) r"
      then show ?thesis using nz by (auto dest: set_takeWhileD)
    next
      assume t: "t \<in> set (tokens (dropWhile (\<lambda>x. \<not> is_ws x) r))"
      have "NUL \<notin> set (dropWhile (\<lambda>x. \<not> is_ws x) r)" using nz by (auto dest: set_dropWhileD)
      then show ?thesis using "1.IH" [OF Cons] t by blast
    qed
  qed
qed

lemma c_string_no_NUL: "NUL \<notin> set (c_string buf i)"
  by (auto simp: c_string_def dest: set_takeWhileD)

lemma c_string_id: "NUL \<notin> set s \<Longrightarrow> c_string s 0 = s"
  by (induction s) (auto simp: c_string_def)

lemma token_c_string: "t \<in> set (tokens (c_string buf 0)) \<Longrightarrow> c_string t 0 = t"
  using tokens_no_NUL [OF c_string_no_NUL] by (auto intro: c_string_id)

lemma lookup_unknown:
  assumes "\<forall>c \<in> set cmds. c_string (name c) 0 \<noteq> t" and "c_string t 0 = t"
  shows "lookup invoke cmds argc (t # ts) tf con =
     Some (0, con @ ''Unknown command '' @ [CHR 0x27] @ t @ [CHR 0x27] @ ''\<newline>'')"
  using assms by (induction cmds) (auto simp: cprintf_unknown strcmp_eq_0)

lemma lookup_found:
  assumes "\<forall>c' \<in> set before. c_string (name c') 0 \<noteq> t" and "c_string (name c) 0 = t"
    and "c_string t 0 = t"
  shows "lookup invoke (before @ c # after) argc (t # ts) tf con =
     invoke (func c) argc (t # ts) tf con"
  using assms by (induction before) (auto simp: strcmp_eq_0)

lemma tokens_Cons_ws: "is_ws c \<Longrightarrow> tokens (c # s) = tokens s"
  using tokens_ws [of "[c]" s] by simp

lemma tokens_Cons_word:
  "\<not> is_ws c \<Longrightarrow>
   tokens (c # s) = (c # takeWhile (\<lambda>x. \<not> is_ws x) s) # tokens (dropWhile (\<lambda>x. \<not> is_ws x) s)"
  by (subst tokens.simps) simp

lemmas tokens_eval = tokens_Nil tokens_Cons_ws tokens_Cons_word is_ws_def WHITESPACE_def

lemma monitor_loop_step:
  "runcmd invoke cmds buf tf con = Some (r, con') \<Longrightarrow>
   monitor_loop invoke cmds tf (Some buf # rest) con =
     (if sint r < 0 then Some (Terminal con') else monitor_loop invoke cmds tf rest con')"
  by simp

lemma cprintf_help:
  "cprintf ''%s - %s\<newline>'' [ArgStr n, ArgStr d] con = Some (con @ n @ '' - '' @ d @ ''\<newline>'')"
  by (simp add: cprintf_def conv0_def is_digit_def digit_val_def fmt_string_def pad_left_def)

lemma mon_help_loop_eq:
  "i \<le> NCOMMANDS \<Longrightarrow>
   mon_help_loop i con =
     Some (con @ concat (map (\<lambda>c. name c @ '' - '' @ desc c @ ''\<newline>'') (drop i commands)))"
proof (induction i con rule: mon_help_loop.induct)
  case (1 i con)
  show ?case
  proof (cases "i < NCOMMANDS")
    case True
    then have d: "drop i commands = commands ! i # drop (i + 1) commands"
      by (simp add: NCOMMANDS_def Cons_nth_drop_Suc)
    have "mon_help_loop i con =
        mon_help_loop (i + 1) (con @ name (commands ! i) @ '' - '' @ desc (commands ! i) @ ''\<newline>'')"
      using True by (subst mon_help_loop.simps) (simp add: cprintf_help)
    also have "\<dots> = Some ((con @ name (commands ! i) @ '' - '' @ desc (commands ! i) @ ''\<newline>'')
        @ concat (map (\<lambda>c. name c @ '' - '' @ desc c @ ''\<newline>'') (drop (i + 1) commands)))"
      using True by (intro "1.IH") (simp_all add: cprintf_help)
    finally show ?thesis by (simp add: d)
  next
    case False
    then show ?thesis using "1.prems" by (subst mon_help_loop.simps) (simp add: NCOMMANDS_def)
  qed
qed

lemma mon_help_eq:
  "mon_help argc argv tf con =
     Some (0, con @ concat (map (\<lambda>c. name c @ '' - '' @ desc c @ ''\<newline>'') commands))"
  by (simp add: mon_help_def mon_help_loop_eq)

lemma call_returns_0: "call p h argc argv tf con = Some (r, con') \<Longrightarrow> r = 0"
  by (cases h) (auto simp: mon_help_eq mon_kerninfo_def mon_backtrace_def bind_eq_Some_conv)

lemma lookup_returns_0:
  assumes "\<forall>f a v t c r c'. invoke f a v t c = Some (r, c') \<longrightarrow> r = 0"
    and "lookup invoke cmds argc argv tf con = Some (r, con')"
  shows "r = 0"
  using assms(2)
proof (induction cmds)
  case Nil
  then show ?case by (auto simp: bind_eq_Some_conv)
next
  case (Cons c cs)
  show ?case
  proof (cases "strcmp (argv ! 0) (name c) = 0")
    case True
    then have "invoke (func c) argc argv tf con = Some (r, con')" using Cons.prems by simp
    then show ?thesis using assms(1) by blast
  next
    case False
    then show ?thesis using Cons by simp
  qed
qed

lemma runcmd_returns_0:
  assumes "\<forall>f a v t c r c'. invoke f a v t c = Some (r, c') \<longrightarrow> r = 0"
    and "runcmd invoke cmds buf tf con = Some (r, con')"
  shows "r = 0"
proof (cases "15 < length (tokens (c_string buf 0)) \<or> tokens (c_string buf 0) = []")
  case True
  then show ?thesis using assms(2) by (auto simp: runcmd_eq split: if_splits)
next
  case False
  then have "lookup invoke cmds (of_nat (length (tokens (c_string buf 0))))
      (tokens (c_string buf 0)) tf con = Some (r, con')"
    using assms(2) by (simp add: runcmd_eq)
  then show ?thesis by (rule lookup_returns_0 [OF assms(1)])
qed

lemma monitor_loop_never_terminal:
  assumes "\<forall>f a v t c r c'. invoke f a v t c = Some (r, c') \<longrightarrow> r = 0"
  shows "monitor_loop invoke cmds tf lines con \<noteq> Some (Terminal con')"
proof (induction lines arbitrary: con)
  case Nil
  show ?case by simp
next
  case (Cons l ls)
  show ?case
  proof (cases l)
    case None
    then show ?thesis using Cons.IH by simp
  next
    case (Some buf)
    show ?thesis
    proof (cases "runcmd invoke cmds buf tf con")
      case None
      then show ?thesis using Some by simp
    next
      case (Some rc)
      obtain r c where rc: "rc = (r, c)" by (cases rc)
      have "runcmd invoke cmds buf tf con = Some (r, c)" using Some rc by simp
      then have "r = 0" by (rule runcmd_returns_0 [OF assms])
      then show ?thesis using \<open>l = Some buf\<close> Some rc Cons.IH by simp
    qed
  qed
qed

text \<open>
  The handlers of kern/monitor.c return: \<open>mon_help\<close> and \<open>mon_kerninfo\<close> always,
  \<open>mon_backtrace\<close> on every well-formed stack; so \<open>runcmd\<close> and the loop return too.
\<close>

lemma mon_kerninfo_eq:
  "mon_kerninfo p argc argv tf con =
     Some (0, con @ ''Special kernel symbols:\<newline>''
       @ ''  _start                  '' @ hex08 (sym_start p) @ '' (phys)\<newline>''
       @ ''  entry  '' @ hex08 (sym_entry p) @ '' (virt)  '' @ hex08 (sym_entry p - KERNBASE p) @ '' (phys)\<newline>''
       @ ''  etext  '' @ hex08 (sym_etext p) @ '' (virt)  '' @ hex08 (sym_etext p - KERNBASE p) @ '' (phys)\<newline>''
       @ ''  edata  '' @ hex08 (sym_edata p) @ '' (virt)  '' @ hex08 (sym_edata p - KERNBASE p) @ '' (phys)\<newline>''
       @ ''  end    '' @ hex08 (sym_end p) @ '' (virt)  '' @ hex08 (sym_end p - KERNBASE p) @ '' (phys)\<newline>''
       @ ''Kernel executable memory footprint: ''
       @ dec_int (sint (word_of_int (sint (ROUNDUP p (sym_end p - sym_entry p) 1024) sdiv 1024) :: uint32_t))
       @ ''KB\<newline>'')"
  by (simp add: mon_kerninfo_def cprintf_def conv0_def is_digit_def digit_val_def
      fmt_unsigned_hex08 fmt_signed_def pad_left_def dec_int_def)

lemma call_total:
  assumes "stack_chain p (read_ebp p) fps"
  shows "\<exists>con'. call p h argc argv tf con = Some (0, con')"
  using backtrace_loop_chain [OF assms]
  by (cases h) (simp_all add: mon_help_eq mon_kerninfo_eq mon_backtrace_def)

lemma lookup_total:
  assumes "\<forall>f a v t c. \<exists>c'. invoke f a v t c = Some (0, c')"
  shows "\<exists>con'. lookup invoke cmds argc (t # ts) tf con = Some (0, con')"
proof (induction cmds)
  case Nil
  show ?case by (simp add: cprintf_unknown)
next
  case (Cons c cs)
  then show ?case using assms by simp
qed

lemma runcmd_total:
  assumes "\<forall>f a v t c. \<exists>c'. invoke f a v t c = Some (0, c')"
  shows "\<exists>con'. runcmd invoke cmds buf tf con = Some (0, con')"
proof (cases "tokens (c_string buf 0)")
  case Nil
  then show ?thesis by (simp add: runcmd_eq)
next
  case (Cons t ts)
  then show ?thesis using lookup_total [OF assms] by (simp add: runcmd_eq)
qed

lemma monitor_loop_total:
  assumes "\<forall>f a v t c. \<exists>c'. invoke f a v t c = Some (0, c')"
  shows "\<exists>con'. monitor_loop invoke cmds tf lines con = Some (Reading con')"
proof (induction lines arbitrary: con)
  case Nil
  show ?case by simp
next
  case (Cons l ls)
  show ?case
  proof (cases l)
    case None
    then show ?thesis using Cons.IH by simp
  next
    case (Some buf)
    obtain c where "runcmd invoke cmds buf tf con = Some (0, c)"
      using runcmd_total [OF assms] by blast
    then show ?thesis using Some Cons.IH [of c] by simp
  qed
qed

lemma builtin_names:
  "t \<notin> set (map name commands) \<Longrightarrow> \<forall>c \<in> set commands. c_string (name c) 0 \<noteq> t"
  by (auto simp: commands_def c_string_def NUL_def)

lemma runcmd_builtin_other:
  assumes "\<forall>ts. tokens (c_string buf 0) \<noteq> ''backtrace'' # ts"
  shows "\<exists>con'. runcmd (call p) commands buf tf con = Some (0, con')"
proof (cases "tokens (c_string buf 0)")
  case Nil
  then show ?thesis by (simp add: runcmd_eq)
next
  case (Cons t ts)
  then have "t \<in> set (tokens (c_string buf 0))" by simp
  then have id: "c_string t 0 = t" by (rule token_c_string)
  have nb: "t \<noteq> ''backtrace''" using assms Cons by simp
  have "\<exists>con'. lookup (call p) commands argc (t # ts) tf con = Some (0, con')" for argc
    using nb id
    by (simp add: commands_def strcmp_eq_0 mon_help_eq mon_kerninfo_eq cprintf_unknown
        c_string_def [of "''help''"] c_string_def [of "''kerninfo''"]
        c_string_def [of "''backtrace''"] NUL_def)
  then show ?thesis using Cons by (simp add: runcmd_eq)
qed

lemma kerninfo_two_frames:
  "mon_kerninfo two_frames argc argv tf con =
     Some (0, con @ ''Special kernel symbols:\<newline>  _start                  0010000c (phys)\<newline>  entry  f010000c (virt)  0010000c (phys)\<newline>  etext  f0101a75 (virt)  00101a75 (phys)\<newline>  edata  f0112300 (virt)  00112300 (phys)\<newline>  end    f0112960 (virt)  00112960 (phys)\<newline>Kernel executable memory footprint: 75KB\<newline>'')"
  apply (simp add: mon_kerninfo_eq two_frames_def hex08_digits digit_char_def)
  apply (simp add: signed_divide_int_def dec_int_def printnum.simps [of 10 75] printnum.simps [of 10 7] digit_char_def)
  done

section \<open>The stack backtrace\<close>

text \<open>
  C1, as the code has it. The claim that a frame whose return address fails symbol
  resolution gets the raw frame line only does not hold: \<open>mon_print_symbols\<close> never
  looks at the status of \<open>debuginfo_eip\<close>. On the machine whose resolver fails for every
  address, the frame at 0x1000 is printed as two lines, the second a symbol line made of
  the placeholders the resolver left behind.
\<close>

theorem unresolved_frame_counterexample:
  "sint (fst (debuginfo_eip two_frames (load two_frames (0x1000 + 4)))) < 0
   \<and> mon_print_frame_descr two_frames 0x1000 [] =
       Some ''ebp 00001000 eip f0100040 args 00000000 00000000 00000000 00000000 00000000 \<newline><unknown>:0: <unknown>+0\<newline>''"
  by (simp add: mon_print_frame_descr_eq frame_line_args symbol_line_def function_name_def
      two_frames_def hex08_examples dec_int_0)

text \<open>
  C1, amended: every frame is printed as two lines, the raw frame line and then the
  symbol line formatted from whatever the resolver left in the info structure; the
  status of the resolver (\<open>status\<close> below is any other status) changes nothing.
\<close>

theorem frame_descr_two_lines:
  "mon_print_frame_descr p fp con =
     Some (con @ frame_line p fp
           @ symbol_line (snd (debuginfo_eip p (load p (fp + 4)))) (load p (fp + 4)))
   \<and> mon_print_frame_descr (p\<lparr>debuginfo_eip := (\<lambda>a. (status a, snd (debuginfo_eip p a)))\<rparr>) fp con =
       mon_print_frame_descr p fp con"
  by (simp add: mon_print_frame_descr_eq frame_line_def)

text \<open>
  C2: on a well-formed stack, whose chain of saved frame pointers from the current frame
  pointer is \<open>fps\<close> (N frames, callee first) and ends at the zero sentinel, the backtrace
  returns, and it has printed exactly the N frames of \<open>fps\<close>, in that order; it stops
  when the frame pointer is zero (an empty chain prints nothing).
\<close>

theorem backtrace_walks_chain:
  assumes "stack_chain p (read_ebp p) fps"
  shows "mon_backtrace p argc argv tf con =
     Some (0, con @ concat (map (\<lambda>f. frame_line p f
             @ symbol_line (snd (debuginfo_eip p (load p (f + 4)))) (load p (f + 4))) fps))"
  using backtrace_loop_chain [OF assms] by (simp add: mon_backtrace_def)

theorem backtrace_walks_chain_witness:
  "stack_chain two_frames (read_ebp two_frames) [0x1000, 0x2000]
   \<and> mon_backtrace two_frames 1 [''backtrace''] 0 [] =
       Some (0, ''ebp 00001000 eip f0100040 args 00000000 00000000 00000000 00000000 00000000 \<newline><unknown>:0: <unknown>+0\<newline>ebp 00002000 eip f0100100 args 00000000 00000000 00000000 00000000 00000000 \<newline><unknown>:0: <unknown>+0\<newline>'')"
proof -
  have chain: "stack_chain two_frames (read_ebp two_frames) [0x1000, 0x2000]"
    by (simp add: two_frames_def)
  show ?thesis
    using chain backtrace_walks_chain [OF chain, of 1 "[''backtrace'']" 0 "[]"]
    by (simp add: frame_line_args symbol_line_def function_name_def two_frames_def
        hex08_examples dec_int_0)
qed

text \<open>
  C3: when the resolver gives the info \<open>{file, line, function_name, function_start}\<close>
  for a return address, the symbol line is \<open><file>:<line>: <function_name>+<byte_offset>\<close>
  with the byte offset the return address minus the function's start (the \<open>int\<close> the C
  subtraction yields, printed in decimal so that it reads back as that \<open>int\<close>; it is the
  difference of the two addresses whenever the start is not above the return address and
  the difference is below \<open>2^31\<close>); for foo.c, line 42, \<open>bar\<close> and a return address 16
  bytes after the start the line is \<open>foo.c:42: bar+16\<close>.
\<close>

theorem symbol_line_format:
  assumes "debuginfo_eip p ret = (status, info)"
  shows "mon_print_symbols p ret con =
       Some (con @ eip_file info @ '':'' @ dec_int (sint (eip_line info)) @ '': ''
             @ function_name info @ ''+'' @ dec_int (sint (ret - eip_fn_addr info)) @ ''\<newline>'')
     \<and> int_of_dec (dec_int (sint (ret - eip_fn_addr info))) = sint (ret - eip_fn_addr info)
     \<and> (eip_fn_addr info \<le> ret \<and> unat (ret - eip_fn_addr info) < 2 ^ 31 \<longrightarrow>
          sint (ret - eip_fn_addr info) = int (unat ret) - int (unat (eip_fn_addr info)))
     \<and> (eip_file info = ''foo.c'' \<and> eip_line info = 42 \<and> function_name info = ''bar''
          \<and> ret = eip_fn_addr info + 16 \<longrightarrow>
          mon_print_symbols p ret con = Some (con @ ''foo.c:42: bar+16\<newline>''))"
proof -
  have info: "snd (debuginfo_eip p ret) = info" using assms by simp
  have line: "mon_print_symbols p ret con =
       Some (con @ eip_file info @ '':'' @ dec_int (sint (eip_line info)) @ '': ''
             @ function_name info @ ''+'' @ dec_int (sint (ret - eip_fn_addr info)) @ ''\<newline>'')"
    by (simp add: mon_print_symbols_eq info symbol_line_def)
  have example: "mon_print_symbols p ret con = Some (con @ ''foo.c:42: bar+16\<newline>'')"
    if "eip_file info = ''foo.c''" "eip_line info = 42" "function_name info = ''bar''"
      "ret = eip_fn_addr info + 16"
    using that unfolding line by (simp add: dec_int_16 dec_int_42)
  show ?thesis using line example sint_offset int_of_dec_dec_int by blast
qed

theorem symbol_line_format_witness:
  "debuginfo_eip resolving 0xf0100040 =
     (0, \<lparr>eip_file = ''foo.c'', eip_line = 42, eip_fn_name = ''bar:F(0,1)'', eip_fn_namelen = 3,
          eip_fn_addr = 0xf0100030\<rparr>)
   \<and> mon_print_symbols resolving 0xf0100040 [] = Some ''foo.c:42: bar+16\<newline>''"
proof -
  have res: "debuginfo_eip resolving 0xf0100040 =
     (0, \<lparr>eip_file = ''foo.c'', eip_line = 42, eip_fn_name = ''bar:F(0,1)'', eip_fn_namelen = 3,
          eip_fn_addr = 0xf0100030\<rparr>)"
    by (simp add: resolving_def)
  show ?thesis
    using res symbol_line_format [OF res, of "[]"]
    by (simp add: function_name_def dec_int_16 dec_int_42)
qed

text \<open>
  C4: the raw frame line of a frame is the frame pointer, the return address (which
  \<open>mon_print_frame_descr\<close> reads one word past the frame pointer) and exactly five
  argument words, read from two words past the frame pointer on, each as eight
  hexadecimal digits that denote the value; no argument count enters.
\<close>

theorem raw_frame_line:
  "mon_print_frame p fp ret con =
     Some (con @ ''ebp '' @ hex08 fp @ '' eip '' @ hex08 ret @ '' args ''
           @ hex08 (load p (fp + 8)) @ '' '' @ hex08 (load p (fp + 12)) @ '' ''
           @ hex08 (load p (fp + 16)) @ '' '' @ hex08 (load p (fp + 20)) @ '' ''
           @ hex08 (load p (fp + 24)) @ '' \<newline>'')
   \<and> mon_print_frame_descr p fp con =
       mon_print_frame p fp (load p (fp + 4)) con \<bind> mon_print_symbols p (load p (fp + 4))
   \<and> length (hex08 w) = 8 \<and> number_of 16 (hex08 w) = unat w"
  by (simp add: mon_print_frame_eq mon_print_frame_descr_def length_hex08 number_of_hex08 Let_def
      upt_rec [of _ 5] upt_rec [of _ 4] upt_rec [of _ 3] upt_rec [of _ 2] upt_rec [of _ 1]
      add.commute del: upt_Suc)

section \<open>The command interpreter and the loop\<close>

text \<open>
  C5, as the code has it. The claim that the tokenizer accepts up to \<open>MAXARGS\<close> = 16
  tokens, and aborts only above 16, does not hold: the guard of \<open>runcmd\<close> is
  \<open>argc == MAXARGS-1\<close>, which keeps the last slot of \<open>argv\<close> for the terminating null
  pointer. A line of exactly 16 tokens is aborted.
\<close>

theorem sixteen_tokens_counterexample:
  "length (tokens (c_string ''a b c d e f g h i j k l m n o p'' 0)) = 16
   \<and> runcmd (call two_frames) commands ''a b c d e f g h i j k l m n o p'' 0 [] =
       Some (0, ''Too many arguments (max 16)\<newline>'')"
proof -
  have t: "length (tokens (c_string ''a b c d e f g h i j k l m n o p'' 0)) = 16"
    by (simp add: c_string_def NUL_def tokens_eval)
  show ?thesis using t by (simp add: runcmd_eq)
qed

text \<open>
  C5, amended: the tokenizer accepts up to \<open>MAXARGS - 1\<close> = 15 tokens per line, and then
  \<open>argv\<close> holds exactly the tokens of the line; only a line whose token count exceeds 15
  aborts tokenization, reports the error and is a no-op, whatever the command table and
  its handlers are (none is invoked).
\<close>

theorem tokenizer_limit:
  "(length (tokens (c_string buf 0)) \<le> MAXARGS - 1 \<longrightarrow>
      (\<exists>buf' argv. parse_args buf 0 [] = (buf', Some argv)
         \<and> map (c_string buf') argv = tokens (c_string buf 0)))
   \<and> (MAXARGS - 1 < length (tokens (c_string buf 0)) \<longrightarrow>
      snd (parse_args buf 0 []) = None
      \<and> runcmd invoke cmds buf tf con = Some (0, con @ ''Too many arguments (max 16)\<newline>''))"
  using parse_args_tokens [of buf] by (auto simp: MAXARGS_def runcmd_eq)

theorem tokenizer_limit_witness:
  "length (tokens (c_string ''a b c d e f g h i j k l m n o'' 0)) \<le> MAXARGS - 1
   \<and> (\<exists>buf' argv. parse_args ''a b c d e f g h i j k l m n o'' 0 [] = (buf', Some argv)
         \<and> map (c_string buf') argv =
             [''a'', ''b'', ''c'', ''d'', ''e'', ''f'', ''g'', ''h'', ''i'', ''j'', ''k'', ''l'', ''m'', ''n'', ''o''])
   \<and> MAXARGS - 1 < length (tokens (c_string ''a b c d e f g h i j k l m n o p q'' 0))
   \<and> runcmd (call two_frames) commands ''a b c d e f g h i j k l m n o p q'' 0 [] =
       Some (0, ''Too many arguments (max 16)\<newline>'')"
proof -
  have t15: "tokens (c_string ''a b c d e f g h i j k l m n o'' 0) =
      [''a'', ''b'', ''c'', ''d'', ''e'', ''f'', ''g'', ''h'', ''i'', ''j'', ''k'', ''l'', ''m'', ''n'', ''o'']"
    by (simp add: c_string_def NUL_def tokens_eval)
  have t17: "length (tokens (c_string ''a b c d e f g h i j k l m n o p q'' 0)) = 17"
    by (simp add: c_string_def NUL_def tokens_eval)
  show ?thesis
    using tokenizer_limit [of "''a b c d e f g h i j k l m n o''"]
      tokenizer_limit [of "''a b c d e f g h i j k l m n o p q''" "call two_frames" commands 0 "[]"]
    by (simp add: t15 t17 MAXARGS_def)
qed

text \<open>
  C6: a line of 16 or more whitespace-separated tokens gets the overflow message
  \<open>Too many arguments (max 16)\<close> and the value 0; the result is the same for every command
  table and every handler, so no handler is invoked.
\<close>

theorem too_many_arguments:
  assumes "16 \<le> length (tokens (c_string buf 0))"
  shows "runcmd invoke cmds buf tf con = Some (0, con @ ''Too many arguments (max 16)\<newline>'')"
  using assms by (simp add: runcmd_eq)

theorem too_many_arguments_witness:
  "16 \<le> length (tokens (c_string ''backtrace 1 2 3 4 5 6 7 8 9 10 11 12 13 14 15'' 0))
   \<and> runcmd (call two_frames) commands ''backtrace 1 2 3 4 5 6 7 8 9 10 11 12 13 14 15'' 0 [] =
       Some (0, ''Too many arguments (max 16)\<newline>'')"
proof -
  have t: "16 \<le> length (tokens (c_string ''backtrace 1 2 3 4 5 6 7 8 9 10 11 12 13 14 15'' 0))"
    by (simp add: c_string_def NUL_def tokens_eval)
  show ?thesis using t too_many_arguments [OF t, of "call two_frames" commands 0 "[]"] by simp
qed

text \<open>
  C7, as the code has it. The claim that every line whose first token matches no
  registered name gets \<open>Unknown command '<token>'\<close> does not hold for a line of 16 or more
  tokens: tokenization aborts before the lookup, and the message is the overflow one.
\<close>

theorem unknown_first_token_counterexample:
  "hd (tokens (c_string ''x a b c d e f g h i j k l m n o'' 0)) = ''x''
   \<and> ''x'' \<notin> set (map name commands)
   \<and> runcmd (call two_frames) commands ''x a b c d e f g h i j k l m n o'' 0 [] =
       Some (0, ''Too many arguments (max 16)\<newline>'')
   \<and> runcmd (call two_frames) commands ''x a b c d e f g h i j k l m n o'' 0 [] \<noteq>
       Some (0, ''Unknown command '' @ [CHR 0x27] @ ''x'' @ [CHR 0x27] @ ''\<newline>'')"
proof -
  have t: "tokens (c_string ''x a b c d e f g h i j k l m n o'' 0) =
      [''x'', ''a'', ''b'', ''c'', ''d'', ''e'', ''f'', ''g'', ''h'', ''i'', ''j'', ''k'', ''l'', ''m'', ''n'', ''o'']"
    by (simp add: c_string_def NUL_def tokens_eval)
  show ?thesis by (simp add: runcmd_eq t commands_def)
qed

text \<open>
  C7, amended: for every line of at most 15 tokens whose first token equals no
  registered command name (compared byte by byte, so case-sensitively), \<open>runcmd\<close> prints
  \<open>Unknown command '<token>'\<close> and returns 0, whatever the handlers are (none is invoked),
  and the loop goes on with the next line.
\<close>

theorem unknown_command:
  assumes "tokens (c_string buf 0) = t # ts" and "length (t # ts) \<le> 15"
    and "\<forall>c \<in> set cmds. c_string (name c) 0 \<noteq> t"
  shows "runcmd invoke cmds buf tf con =
       Some (0, con @ ''Unknown command '' @ [CHR 0x27] @ t @ [CHR 0x27] @ ''\<newline>'')
     \<and> monitor_loop invoke cmds tf (Some buf # rest) con =
         monitor_loop invoke cmds tf rest
           (con @ ''Unknown command '' @ [CHR 0x27] @ t @ [CHR 0x27] @ ''\<newline>'')"
proof -
  have "t \<in> set (tokens (c_string buf 0))" using assms(1) by simp
  then have "c_string t 0 = t" by (rule token_c_string)
  then have "runcmd invoke cmds buf tf con =
       Some (0, con @ ''Unknown command '' @ [CHR 0x27] @ t @ [CHR 0x27] @ ''\<newline>'')"
    using assms by (simp add: runcmd_eq lookup_unknown)
  then show ?thesis by simp
qed

theorem unknown_command_witness:
  "tokens (c_string ''foo bar'' 0) = [''foo'', ''bar'']
   \<and> list_all (\<lambda>c. c_string (name c) 0 \<noteq> ''foo'') commands
   \<and> runcmd (call two_frames) commands ''foo bar'' 0 [] =
       Some (0, ''Unknown command '' @ [CHR 0x27] @ ''foo'' @ [CHR 0x27] @ ''\<newline>'')"
proof -
  have t: "tokens (c_string ''foo bar'' 0) = [''foo'', ''bar'']"
    by (simp add: c_string_def NUL_def tokens_eval)
  have n: "\<forall>c \<in> set commands. c_string (name c) 0 \<noteq> ''foo''"
    by (simp add: commands_def c_string_def NUL_def)
  show ?thesis
    using t n unknown_command [OF t _ n, of "call two_frames" 0 "[]"]
    by (simp add: list_all_iff)
qed

text \<open>
  C8, as the code has it. The claim that an all-whitespace line changes no state does
  not hold of the line itself: the tokenizer is destructive, and before it finds that
  the line has no token it has overwritten every whitespace byte of the buffer with NUL
  (\<open>*buf++ = 0\<close>). A line of a space, a tab and a space is three NUL bytes afterwards.
\<close>

theorem blank_line_counterexample:
  "list_all is_ws (c_string [CHR '' '', CHR 0x09, CHR '' ''] 0)
   \<and> fst (parse_args [CHR '' '', CHR 0x09, CHR '' ''] 0 []) = [NUL, NUL, NUL]
   \<and> fst (parse_args [CHR '' '', CHR 0x09, CHR '' ''] 0 []) \<noteq> [CHR '' '', CHR 0x09, CHR '' '']"
proof -
  have a: "\<forall>c \<in> set (c_string [CHR '' '', CHR 0x09, CHR '' ''] 0). is_ws c"
    by (simp add: c_string_def NUL_def is_ws_def WHITESPACE_def)
  have c: "c_string [CHR '' '', CHR 0x09, CHR '' ''] 0 = [CHR '' '', CHR 0x09, CHR '' '']"
    by (simp add: c_string_def NUL_def)
  have "fst (parse_args [CHR '' '', CHR 0x09, CHR '' ''] 0 []) = [NUL, NUL, NUL]"
    using blank_line_buffer [OF a] by (simp add: c numeral_3_eq_3)
  then show ?thesis using a by (simp add: list_all_iff NUL_def)
qed

text \<open>
  C8, amended: for every empty or all-whitespace line, tokenization yields zero tokens,
  no handler is invoked (the result is the same for every command table and handler),
  no output is produced (the console is as it was), the value is 0 and the loop is where
  it would be had the line not been read; nothing changes but the line buffer, whose
  whitespace bytes are overwritten with NUL.
\<close>

theorem blank_line_changes_only_buffer:
  assumes "\<forall>c \<in> set (c_string buf 0). is_ws c"
  shows "tokens (c_string buf 0) = []
     \<and> parse_args buf 0 [] =
         (replicate (length (c_string buf 0)) NUL @ drop (length (c_string buf 0)) buf, Some [])
     \<and> runcmd invoke cmds buf tf con = Some (0, con)
     \<and> monitor_loop invoke cmds tf (Some buf # rest) con = monitor_loop invoke cmds tf rest con"
proof -
  have t: "tokens (c_string buf 0) = []"
    using tokens_ws [OF assms, of "[]"] by (simp add: tokens_Nil)
  have "runcmd invoke cmds buf tf con = Some (0, con)" by (simp add: runcmd_eq t)
  then show ?thesis using t blank_line_buffer [OF assms] by simp
qed

theorem blank_line_changes_only_buffer_witness:
  "list_all is_ws (c_string [CHR '' '', CHR 0x09, CHR '' ''] 0)
   \<and> parse_args [CHR '' '', CHR 0x09, CHR '' ''] 0 [] = ([NUL, NUL, NUL], Some [])
   \<and> runcmd (call two_frames) commands [CHR '' '', CHR 0x09, CHR '' ''] 0 ''K'' = Some (0, ''K'')
   \<and> list_all is_ws (c_string [] 0)
   \<and> parse_args [] 0 [] = ([], Some [])
   \<and> runcmd (call two_frames) commands [] 0 ''K'' = Some (0, ''K'')"
proof -
  have a: "\<forall>c \<in> set (c_string [CHR '' '', CHR 0x09, CHR '' ''] 0). is_ws c"
    by (simp add: c_string_def NUL_def is_ws_def WHITESPACE_def)
  have b: "\<forall>c \<in> set (c_string [] 0). is_ws c" by (simp add: c_string_def)
  have c: "c_string [CHR '' '', CHR 0x09, CHR '' ''] 0 = [CHR '' '', CHR 0x09, CHR '' '']"
    by (simp add: c_string_def NUL_def)
  have d: "c_string [] 0 = []" by (simp add: c_string_def)
  show ?thesis
    using a b blank_line_changes_only_buffer [OF a, of "call two_frames" commands 0 "''K''"]
      blank_line_changes_only_buffer [OF b, of "call two_frames" commands 0 "''K''"]
    by (simp add: list_all_iff c d numeral_3_eq_3)
qed

text \<open>
  C9: when the line of a command dispatches to a handler (the first table entry whose
  name is the first token) and the handler returns \<open>r\<close>, the loop is \<open>Terminal\<close> if
  \<open>r\<close> is negative, and otherwise goes on reading the next line from the console the
  handler left.
\<close>

theorem handler_return_decides:
  assumes "tokens (c_string buf 0) = t # ts" and "length (t # ts) \<le> 15"
    and "cmds = before @ c # after"
    and "\<forall>c' \<in> set before. c_string (name c') 0 \<noteq> t" and "c_string (name c) 0 = t"
    and "invoke (func c) (of_nat (length (t # ts))) (t # ts) tf con = Some (r, con')"
  shows "runcmd invoke cmds buf tf con = Some (r, con')
     \<and> monitor_loop invoke cmds tf (Some buf # rest) con =
         (if sint r < 0 then Some (Terminal con') else monitor_loop invoke cmds tf rest con')"
proof -
  have "t \<in> set (tokens (c_string buf 0))" using assms(1) by simp
  then have "c_string t 0 = t" by (rule token_c_string)
  then have "lookup invoke cmds (of_nat (length (t # ts))) (t # ts) tf con = Some (r, con')"
    using assms(3-6) lookup_found [of before t c invoke after "of_nat (length (t # ts))" ts tf con]
    by simp
  then have "runcmd invoke cmds buf tf con = Some (r, con')"
    using assms(1,2) by (simp add: runcmd_eq)
  then show ?thesis by simp
qed

theorem handler_return_decides_witness:
  "monitor_loop (\<lambda>f. f) exit_table 0 [Some ''nop'', Some ''exit now'', Some ''nop''] [] =
     Some (Terminal ''.bye'')
   \<and> monitor_loop (\<lambda>f. f) exit_table 0 [Some ''nop'', Some ''nop''] [] = Some (Reading ''..'')"
proof -
  have t1: "tokens (c_string ''nop'' 0) = [''nop'']"
    by (simp add: c_string_def NUL_def tokens_eval)
  have t2: "tokens (c_string ''exit now'' 0) = [''exit'', ''now'']"
    by (simp add: c_string_def NUL_def tokens_eval)
  have nop: "monitor_loop (\<lambda>f. f) exit_table 0 (Some ''nop'' # rest) con =
      monitor_loop (\<lambda>f. f) exit_table 0 rest (con @ ''.'')" for rest con
    using handler_return_decides [OF t1, of exit_table "[exit_table ! 0]" "exit_table ! 1" "[]"
        "\<lambda>f. f" 0 con 7 "con @ ''.''" rest]
    by (simp add: exit_table_def c_string_def NUL_def)
  have exit: "monitor_loop (\<lambda>f. f) exit_table 0 (Some ''exit now'' # rest) con =
      Some (Terminal (con @ ''bye''))" for rest con
    using handler_return_decides [OF t2, of exit_table "[]" "exit_table ! 0" "[exit_table ! 1]"
        "\<lambda>f. f" 0 con "- 1" "con @ ''bye''" rest]
    by (simp add: exit_table_def c_string_def NUL_def)
  show ?thesis unfolding nop exit by simp
qed

text \<open>
  C10: with the table of kern/monitor.c (help, kerninfo, backtrace) every handler returns
  0: \<open>help\<close> and \<open>kerninfo\<close> return on every call, \<open>backtrace\<close> on every well-formed
  stack, and no handler returns anything else. Every path of \<open>runcmd\<close> that calls no
  handler (empty line, token overflow, unknown command) returns 0 as well, and so does
  every line that is not a backtrace, and every line on a well-formed stack. Hence
  \<open>runcmd\<close> never returns a negative value and no input makes the loop \<open>Terminal\<close>; on a
  well-formed stack the loop reads every line given and is \<open>Reading\<close> again.
\<close>

theorem builtin_commands_never_exit:
  "call p Mon_help argc argv tf con =
     Some (0, con @ concat (map (\<lambda>c. name c @ '' - '' @ desc c @ ''\<newline>'') commands))
   \<and> (\<exists>out. call p Mon_kerninfo argc argv tf con = Some (0, con @ out))
   \<and> (stack_chain p (read_ebp p) fps \<longrightarrow>
        (\<exists>con'. call p Mon_backtrace argc argv tf con = Some (0, con')))
   \<and> (call p h argc argv tf con = Some (r, con') \<longrightarrow> r = 0)
   \<and> (tokens (c_string buf 0) = [] \<longrightarrow> runcmd (call p) commands buf tf con = Some (0, con))
   \<and> (15 < length (tokens (c_string buf 0)) \<longrightarrow>
        runcmd (call p) commands buf tf con = Some (0, con @ ''Too many arguments (max 16)\<newline>''))
   \<and> (tokens (c_string buf 0) = t # ts \<and> length (t # ts) \<le> 15 \<and> t \<notin> set (map name commands) \<longrightarrow>
        runcmd (call p) commands buf tf con =
          Some (0, con @ ''Unknown command '' @ [CHR 0x27] @ t @ [CHR 0x27] @ ''\<newline>''))
   \<and> ((\<forall>ts. tokens (c_string buf 0) \<noteq> ''backtrace'' # ts) \<longrightarrow>
        (\<exists>con'. runcmd (call p) commands buf tf con = Some (0, con')))
   \<and> (stack_chain p (read_ebp p) fps \<longrightarrow>
        (\<exists>con'. runcmd (call p) commands buf tf con = Some (0, con')))
   \<and> (runcmd (call p) commands buf tf con = Some (r, con') \<longrightarrow> r = 0)
   \<and> (stack_chain p (read_ebp p) fps \<longrightarrow>
        (\<exists>con'. monitor_loop (call p) commands tf lines con = Some (Reading con')))
   \<and> monitor_loop (call p) commands tf lines con \<noteq> Some (Terminal con')
   \<and> monitor (call p) commands tf lines con \<noteq> Some (Terminal con')"
proof -
  have h: "\<forall>f a v t c r c'. call p f a v t c = Some (r, c') \<longrightarrow> r = 0"
    using call_returns_0 by blast
  have l: "monitor_loop (call p) commands tf lines c \<noteq> Some (Terminal con')" for c
    by (rule monitor_loop_never_terminal [OF h])
  have m: "monitor (call p) commands tf lines con \<noteq> Some (Terminal con')"
    using l by (auto simp: monitor_def bind_eq_Some_conv)
  have listing: "call p Mon_help argc argv tf con =
     Some (0, con @ concat (map (\<lambda>c. name c @ '' - '' @ desc c @ ''\<newline>'') commands))"
    by (simp add: mon_help_eq)
  have kern: "\<exists>out. call p Mon_kerninfo argc argv tf con = Some (0, con @ out)"
    by (simp add: mon_kerninfo_eq)
  have total: "\<forall>f a v t c. \<exists>c'. call p f a v t c = Some (0, c')"
    if "stack_chain p (read_ebp p) fps"
    using call_total [OF that] by blast
  have bt: "\<exists>con'. call p Mon_backtrace argc argv tf con = Some (0, con')"
    if "stack_chain p (read_ebp p) fps"
    using call_total [OF that] by blast
  have run: "\<exists>con'. runcmd (call p) commands buf tf con = Some (0, con')"
    if "stack_chain p (read_ebp p) fps"
    by (rule runcmd_total [OF total [OF that]])
  have loop: "\<exists>con'. monitor_loop (call p) commands tf lines con = Some (Reading con')"
    if "stack_chain p (read_ebp p) fps"
    by (rule monitor_loop_total [OF total [OF that]])
  have empty: "runcmd (call p) commands buf tf con = Some (0, con)"
    if "tokens (c_string buf 0) = []"
    using that by (simp add: runcmd_eq)
  have over: "runcmd (call p) commands buf tf con =
      Some (0, con @ ''Too many arguments (max 16)\<newline>'')"
    if "15 < length (tokens (c_string buf 0))"
    using that by (simp add: runcmd_eq)
  have unknown: "runcmd (call p) commands buf tf con =
      Some (0, con @ ''Unknown command '' @ [CHR 0x27] @ t @ [CHR 0x27] @ ''\<newline>'')"
    if "tokens (c_string buf 0) = t # ts" "length (t # ts) \<le> 15" "t \<notin> set (map name commands)"
  proof -
    have "t \<in> set (tokens (c_string buf 0))" using that(1) by simp
    then have "c_string t 0 = t" by (rule token_c_string)
    then show ?thesis
      using that(1,2) lookup_unknown [OF builtin_names [OF that(3)]] by (simp add: runcmd_eq)
  qed
  show ?thesis
    using listing kern bt call_returns_0 empty over unknown runcmd_builtin_other run
      runcmd_returns_0 [OF h] loop l m
    by blast
qed

theorem builtin_commands_never_exit_witness:
  "stack_chain two_frames (read_ebp two_frames) [0x1000, 0x2000]
   \<and> runcmd (call two_frames) commands ''help'' 0 [] =
       Some (0, ''help - Display this list of commands\<newline>kerninfo - Display information about the kernel\<newline>backtrace - Display stack backtrace\<newline>'')
   \<and> runcmd (call two_frames) commands ''kerninfo'' 0 [] =
       Some (0, ''Special kernel symbols:\<newline>  _start                  0010000c (phys)\<newline>  entry  f010000c (virt)  0010000c (phys)\<newline>  etext  f0101a75 (virt)  00101a75 (phys)\<newline>  edata  f0112300 (virt)  00112300 (phys)\<newline>  end    f0112960 (virt)  00112960 (phys)\<newline>Kernel executable memory footprint: 75KB\<newline>'')
   \<and> runcmd (call two_frames) commands ''backtrace'' 0 [] =
       Some (0, ''ebp 00001000 eip f0100040 args 00000000 00000000 00000000 00000000 00000000 \<newline><unknown>:0: <unknown>+0\<newline>ebp 00002000 eip f0100100 args 00000000 00000000 00000000 00000000 00000000 \<newline><unknown>:0: <unknown>+0\<newline>'')
   \<and> runcmd (call two_frames) commands [] 0 [] = Some (0, [])
   \<and> runcmd (call two_frames) commands ''foo'' 0 [] =
       Some (0, ''Unknown command '' @ [CHR 0x27] @ ''foo'' @ [CHR 0x27] @ ''\<newline>'')
   \<and> runcmd (call two_frames) commands ''1 2 3 4 5 6 7 8 9 10 11 12 13 14 15 16'' 0 [] =
       Some (0, ''Too many arguments (max 16)\<newline>'')
   \<and> monitor_loop (call two_frames) commands 0 [Some ''kerninfo'', None, Some ''help''] [] =
       Some (Reading ''Special kernel symbols:\<newline>  _start                  0010000c (phys)\<newline>  entry  f010000c (virt)  0010000c (phys)\<newline>  etext  f0101a75 (virt)  00101a75 (phys)\<newline>  edata  f0112300 (virt)  00112300 (phys)\<newline>  end    f0112960 (virt)  00112960 (phys)\<newline>Kernel executable memory footprint: 75KB\<newline>help - Display this list of commands\<newline>kerninfo - Display information about the kernel\<newline>backtrace - Display stack backtrace\<newline>'')"
proof -
  have chain: "stack_chain two_frames (read_ebp two_frames) [0x1000, 0x2000]"
    by (simp add: two_frames_def)
  have th: "tokens (c_string ''help'' 0) = [''help'']"
    by (simp add: c_string_def NUL_def tokens_eval)
  have tk: "tokens (c_string ''kerninfo'' 0) = [''kerninfo'']"
    by (simp add: c_string_def NUL_def tokens_eval)
  have tb: "tokens (c_string ''backtrace'' 0) = [''backtrace'']"
    by (simp add: c_string_def NUL_def tokens_eval)
  have tf: "tokens (c_string ''foo'' 0) = [''foo'']"
    by (simp add: c_string_def NUL_def tokens_eval)
  have te: "tokens (c_string [] 0) = []"
    by (simp add: c_string_def tokens_eval)
  have t16: "length (tokens (c_string ''1 2 3 4 5 6 7 8 9 10 11 12 13 14 15 16'' 0)) = 16"
    by (simp add: c_string_def NUL_def tokens_eval)
  have rh: "runcmd (call two_frames) commands ''help'' 0 con =
      Some (0, con @ ''help - Display this list of commands\<newline>kerninfo - Display information about the kernel\<newline>backtrace - Display stack backtrace\<newline>'')" for con
    by (simp add: runcmd_eq th mon_help_eq commands_def NUL_def)
  have rk: "runcmd (call two_frames) commands ''kerninfo'' 0 con =
      Some (0, con @ ''Special kernel symbols:\<newline>  _start                  0010000c (phys)\<newline>  entry  f010000c (virt)  0010000c (phys)\<newline>  etext  f0101a75 (virt)  00101a75 (phys)\<newline>  edata  f0112300 (virt)  00112300 (phys)\<newline>  end    f0112960 (virt)  00112960 (phys)\<newline>Kernel executable memory footprint: 75KB\<newline>'')" for con
    by (simp add: runcmd_eq tk kerninfo_two_frames commands_def NUL_def)
  have rb: "runcmd (call two_frames) commands ''backtrace'' 0 [] =
      Some (0, ''ebp 00001000 eip f0100040 args 00000000 00000000 00000000 00000000 00000000 \<newline><unknown>:0: <unknown>+0\<newline>ebp 00002000 eip f0100100 args 00000000 00000000 00000000 00000000 00000000 \<newline><unknown>:0: <unknown>+0\<newline>'')"
    using backtrace_loop_chain [OF chain, of "[]"]
    by (simp add: runcmd_eq tb commands_def NUL_def mon_backtrace_def frame_line_args
        symbol_line_def function_name_def two_frames_def hex08_examples dec_int_0)
  have re: "runcmd (call two_frames) commands [] 0 [] = Some (0, [])"
    using builtin_commands_never_exit [of two_frames 0 "[]" 0 "[]" "[0x1000, 0x2000]" Mon_help 0
        "[]" "[]" "[]" "[]" "[]" ] te
    by simp
  have rf: "runcmd (call two_frames) commands ''foo'' 0 [] =
      Some (0, ''Unknown command '' @ [CHR 0x27] @ ''foo'' @ [CHR 0x27] @ ''\<newline>'')"
    using builtin_commands_never_exit [of two_frames 0 "[]" 0 "[]" "[0x1000, 0x2000]" Mon_help 0
        "[]" "''foo''" "''foo''" "[]" "[]"] tf
    by (simp add: commands_def)
  have ro: "runcmd (call two_frames) commands ''1 2 3 4 5 6 7 8 9 10 11 12 13 14 15 16'' 0 [] =
      Some (0, ''Too many arguments (max 16)\<newline>'')"
    using builtin_commands_never_exit [of two_frames 0 "[]" 0 "[]" "[0x1000, 0x2000]" Mon_help 0
        "[]" "''1 2 3 4 5 6 7 8 9 10 11 12 13 14 15 16''" "[]" "[]" "[]"] t16
    by simp
  show ?thesis using chain rb re rf ro by (simp add: rh rk)
qed

end
